theory Spec2Isabelle
  imports Complex_Main
begin

section \<open>Strings and JSON values\<close>

text \<open>
  Go strings are byte sequences; they are modelled as \<^typ>\<open>string\<close> (a list of
  8-bit characters).  The line feed and carriage return bytes get names.
\<close>

definition LF :: char where
  "LF = CHR 0x0A"

definition CR :: char where
  "CR = CHR 0x0D"

text \<open>
  A value of Go type \<^verbatim>\<open>interface{}\<close> as it occurs in the request body: the result
  of \<^verbatim>\<open>json.Unmarshal\<close> (null, bool, float64, string, array, object), the Go
  literals stored by the program itself (the int 2000, the bool true, string
  constants), and the message list stored under \<^verbatim>\<open>messages\<close>.  A number is
  represented by its value.
\<close>

record Message =
  role :: string
  content :: string

datatype jvalue =
    JNull
  | JBool bool
  | JNum real
  | JStr string
  | JArr "jvalue list"
  | JObj "(string \<times> jvalue) list"
  | JMessages "Message list"

datatype error =
    UnmatchedBrace               \<comment> \<open>\<^verbatim>\<open>unmatched '}'\<close>\<close>
  | MissingKey string            \<comment> \<open>\<^verbatim>\<open>missing key: %s\<close>\<close>
  | OSError string               \<comment> \<open>an error returned by the operating system or a collaborator\<close>
  | Located string nat error     \<comment> \<open>\<^verbatim>\<open>%s:%d: %w\<close>\<close>
  | InterpolatingURL error       \<comment> \<open>\<^verbatim>\<open>interpolating URL: %w\<close>\<close>
  | InfillError error            \<comment> \<open>\<^verbatim>\<open>!infill: %w\<close>\<close>
  | IndexOutOfRange nat nat      \<comment> \<open>run-time panic: index out of range [i] with length n\<close>

section \<open>cut\<close>

text \<open>
  \<^verbatim>\<open>func cut(s string, b byte) (string, string, bool)\<close>: split at the first
  occurrence of \<open>b\<close>; without one, the whole string, the empty string and false.
\<close>

fun cut :: "string \<Rightarrow> char \<Rightarrow> string \<times> string \<times> bool" where
  "cut [] b = ([], [], False)"
| "cut (c # s) b =
     (if c = b then ([], s, True)
      else (case cut s b of (pre, post, ok) \<Rightarrow> (c # pre, post, ok)))"

section \<open>marshal\<close>

text \<open>
  \<^verbatim>\<open>marshal\<close> runs a \<^verbatim>\<open>json.Encoder\<close> with HTML escaping off.
  \<^verbatim>\<open>Encoder.Encode\<close> writes the JSON text of the value followed by a newline
  character.  The JSON text of null, of a boolean and of a number with an
  integral value below \<open>2^53\<close> in magnitude is written out here; the text of
  every other value (string escaping, arrays, objects, other numbers) is left
  to the parameter \<open>enc\<close>, which stands for the library's encoder.
\<close>

fun digits :: "nat \<Rightarrow> string" where
  "digits n =
     (if n < 10 then [''0123456789'' ! n]
      else digits (n div 10) @ [''0123456789'' ! (n mod 10)])"

definition decimal :: "int \<Rightarrow> string" where
  "decimal i = (if i < 0 then CHR ''-'' # digits (nat (- i)) else digits (nat i))"

fun json_text :: "(jvalue \<Rightarrow> string) \<Rightarrow> jvalue \<Rightarrow> string" where
  "json_text enc JNull = ''null''"
| "json_text enc (JBool b) = (if b then ''true'' else ''false'')"
| "json_text enc (JNum x) =
     (if x \<in> \<int> \<and> \<bar>x\<bar> < 2 ^ 53 then decimal \<lfloor>x\<rfloor> else enc (JNum x))"
| "json_text enc v = enc v"

definition marshal :: "(jvalue \<Rightarrow> string) \<Rightarrow> jvalue \<Rightarrow> string" where
  "marshal enc v = json_text enc v @ [LF]"

section \<open>interpolate\<close>

lemma cut_length: "cut s b = (pre, post, True) \<Longrightarrow> length post < length s"
proof (induction s arbitrary: pre)
  case Nil
  then show ?case by simp
next
  case (Cons c s)
  then show ?case
    by (cases "c = b"; cases "cut s b") (auto split: if_splits)
qed

lemma cut_rest_shorter: "s \<noteq> [] \<Longrightarrow> cut s b = (pre, post, ok) \<Longrightarrow> length post < length s"
proof (induction s arbitrary: pre post ok)
  case Nil
  then show ?case by simp
next
  case (Cons c s)
  show ?case
  proof (cases "c = b")
    case True
    with Cons.prems show ?thesis by simp
  next
    case False
    obtain p q k where c: "cut s b = (p, q, k)" by (cases "cut s b") auto
    with False Cons.prems have q: "q = post" by simp
    show ?thesis
    proof (cases "s = []")
      case True
      with c q show ?thesis by simp
    next
      case nonempty: False
      from Cons.IH [OF nonempty c] q show ?thesis by simp
    qed
  qed
qed

text \<open>
  The \<^verbatim>\<open>for\<close> loop of \<^verbatim>\<open>interpolate\<close>, with the buffer \<open>b\<close> as an
  accumulator.  Each round consumes a \<^verbatim>\<open>{key}\<close> span, so the rest of the
  template gets shorter.
\<close>

function interpolate_loop ::
  "(jvalue \<Rightarrow> string) \<Rightarrow> string \<Rightarrow> (string \<rightharpoonup> jvalue) \<Rightarrow> string \<Rightarrow> error + string" where
  "interpolate_loop enc s vars b =
     (case cut s CHR ''{'' of (pre, key, ok) \<Rightarrow>
        if \<not> ok then Inr (b @ pre)
        else (case cut key CHR ''}'' of (key', s', ok') \<Rightarrow>
          if \<not> ok' then Inl UnmatchedBrace
          else (case vars key' of
              None \<Rightarrow> Inl (MissingKey key')
            | Some v \<Rightarrow>
                interpolate_loop enc s' vars
                  (b @ pre @ (case v of JStr svalue \<Rightarrow> svalue | _ \<Rightarrow> marshal enc v)))))"
  by pat_completeness auto
termination
proof (relation "measure (\<lambda>(enc, s, vars, b). length s)", goal_cases)
  case 1
  show ?case by simp
next
  case (2 enc s vars b pre y key ok key' y2 s' ok' v)
  then have "cut s CHR ''{'' = (pre, key, True)" "cut key CHR ''}'' = (key', s', True)"
    by auto
  then have "length s' < length s"
    using cut_length [of s "CHR ''{''" pre key] cut_length [of key "CHR ''}''" key' s']
    by simp
  then show ?case by simp
qed

definition interpolate ::
  "(jvalue \<Rightarrow> string) \<Rightarrow> string \<Rightarrow> (string \<rightharpoonup> jvalue) \<Rightarrow> error + string" where
  "interpolate enc s vars = interpolate_loop enc s vars []"

section \<open>The conversation builder\<close>

text \<open>
  \<^verbatim>\<open>strings.Trim(s, cutset)\<close> for a cutset of ASCII bytes: the leading and the
  trailing bytes in the cutset are removed.  \<^verbatim>\<open>strings.HasPrefix\<close> is a
  comparison of the first bytes.
\<close>

definition Trim :: "string \<Rightarrow> string \<Rightarrow> string" where
  "Trim s cutset =
     rev (dropWhile (\<lambda>c. c \<in> set cutset) (rev (dropWhile (\<lambda>c. c \<in> set cutset) s)))"

definition HasPrefix :: "string \<Rightarrow> string \<Rightarrow> bool" where
  "HasPrefix s p = (take (length p) s = p)"

record Builder =
  Messages :: "Message list"
  Role :: string
  Content :: string

text \<open>The zero value \<^verbatim>\<open>Builder{}\<close>.\<close>

definition Builder0 :: Builder where
  "Builder0 = \<lparr>Messages = [], Role = [], Content = []\<rparr>"

definition Append :: "string \<Rightarrow> Builder \<Rightarrow> Builder" where
  "Append line b = b\<lparr>Content := Content b @ line @ [LF]\<rparr>"

text \<open>
  \<^verbatim>\<open>func (b *Builder) New(role string) []Message\<close>: the returned slice and
  the builder after the call.  The returned slice is \<^verbatim>\<open>[]Message{}\<close> when there
  is no message and \<^verbatim>\<open>b.Messages\<close> otherwise: the same list either way.
\<close>

definition New :: "string \<Rightarrow> Builder \<Rightarrow> Message list \<times> Builder" where
  "New r b =
     (let c = Trim (Content b) [CR, LF];
          b1 = (if c \<noteq> [] then
                  (let b' = (if Role b = [] then b\<lparr>Role := ''system''\<rparr> else b)
                   in b'\<lparr>Messages := Messages b' @ [\<lparr>role = Role b', content = c\<rparr>]\<rparr>)
                else b);
          b2 = b1\<lparr>Role := r, Content := []\<rparr>
      in (if length (Messages b2) = 0 then [] else Messages b2, b2))"

text \<open>
  The builder of the tool-calling revision of the program.  Its messages have a
  third field \<^verbatim>\<open>ToolCalls\<close>, which the builder always leaves \<^verbatim>\<open>nil\<close> and which
  is omitted from the JSON when empty; it is left out here.
\<close>

definition New_tool :: "string \<Rightarrow> Builder \<Rightarrow> Message list \<times> Builder" where
  "New_tool r b =
     (let b0 = (if Role b = ''tool'' then b\<lparr>Content := Content b @ ''</tool_response>''\<rparr> else b);
          c = Trim (Content b0) [CR, LF];
          b1 = (if c \<noteq> [] then
                  (let b' = (if Role b0 = [] then b0\<lparr>Role := ''system''\<rparr> else b0)
                   in b'\<lparr>Messages := Messages b' @ [\<lparr>role = Role b', content = c\<rparr>]\<rparr>)
                else b0);
          b2 = (if r = ''tool'' then
                  b1\<lparr>Messages := Messages b1 @ [\<lparr>role = ''assistant'', content = []\<rparr>]\<rparr>
                else b1);
          b3 = b2\<lparr>Role := r, Content := []\<rparr>
      in (if length (Messages b3) = 0 then [] else Messages b3, b3))"

text \<open>
  The body of the branch \<^verbatim>\<open>command == "!tool"\<close> of \<^verbatim>\<open>Load\<close> in that revision:
  \<^verbatim>\<open>s.Builder.New("tool")\<close>, then the opening marker is written to the new
  segment.
\<close>

definition tool_directive :: "Builder \<Rightarrow> Builder" where
  "tool_directive b =
     (let b' = snd (New_tool ''tool'' b)
      in b'\<lparr>Content := Content b' @ ''<tool_response>'' @ [LF]\<rparr>)"

section \<open>The streaming response normalizer\<close>

text \<open>The union schema \<^verbatim>\<open>Response\<close> and its zero value.\<close>

record Choice =
  C_Text :: string
  C_Delta_Content :: string

record Response =
  R_Content :: string
  R_Choices :: "Choice list"
  R_Delta_Text :: string
  R_Delta_Thinking :: string

definition Response0 :: Response where
  "Response0 = \<lparr>R_Content = [], R_Choices = [], R_Delta_Text = [], R_Delta_Thinking = []\<rparr>"

text \<open>
  The state of the loop over the response body in \<^verbatim>\<open>query\<close>: the text written
  to the output so far and the two counters.
\<close>

record stream_state =
  written :: string
  nthinking :: nat
  nevents :: nat

definition WriteString :: "string \<Rightarrow> stream_state \<Rightarrow> stream_state" where
  "WriteString t st = st\<lparr>written := written st @ t\<rparr>"

text \<open>The body of the loop after decoding: one decoded frame \<open>r\<close>.\<close>

definition emit :: "Response \<Rightarrow> stream_state \<Rightarrow> stream_state" where
  "emit r st =
     (let st' =
        (case R_Choices r of
           c # _ \<Rightarrow>
             (let chat = C_Delta_Content c
              in if length chat > 0 then WriteString chat st else WriteString (C_Text c) st)
         | [] \<Rightarrow>
             if length (R_Delta_Thinking r) > 0 then
               (let st1 = (if nthinking st = 0 then WriteString (''<think>'' @ [LF]) st else st)
                in WriteString (R_Delta_Thinking r) (st1\<lparr>nthinking := nthinking st1 + 1\<rparr>))
             else if length (R_Delta_Text r) > 0 then
               (let st1 = (if nthinking st > 0
                           then (WriteString ([LF] @ ''</think>'' @ [LF, LF]) st)\<lparr>nthinking := 0\<rparr>
                           else st)
                in WriteString (R_Delta_Text r) st1)
             else WriteString (R_Content r) st)
      in st'\<lparr>nevents := nevents st' + 1\<rparr>)"

text \<open>
  The loop itself, over the lines the scanner yields (a line longer than the
  scanner's buffer ends the scan with an error and never reaches the loop body).  \<open>dec\<close> stands for
  \<^verbatim>\<open>json.Unmarshal\<close> into a \<^verbatim>\<open>Response\<close>: \<open>None\<close> when the payload is not valid
  JSON (the library then stores nothing, and the error is dropped by the
  program), otherwise the record it leaves in \<^verbatim>\<open>r\<close>.  \<^verbatim>\<open>r\<close> is declared anew in every
  round, so it starts from the zero value.
\<close>

fun stream_loop :: "(string \<Rightarrow> Response option) \<Rightarrow> string list \<Rightarrow> stream_state \<Rightarrow> stream_state" where
  "stream_loop dec [] st = st"
| "stream_loop dec (line # rest) st =
     (if \<not> HasPrefix line ''data: '' then stream_loop dec rest st
      else (let payload = drop 6 line
            in if payload = ''[DONE]'' then st
               else stream_loop dec rest
                      (emit (case dec payload of None \<Rightarrow> Response0 | Some r \<Rightarrow> r) st)))"

definition stream0 :: stream_state where
  "stream0 = \<lparr>written = [], nthinking = 0, nevents = 0\<rparr>"

text \<open>
  Frames of the Anthropic shape carrying only a thinking fragment, or only a text
  fragment; used to state properties of whole streams.
\<close>

definition thinking_frame :: "string \<Rightarrow> Response" where
  "thinking_frame t = Response0\<lparr>R_Delta_Thinking := t\<rparr>"

definition text_frame :: "string \<Rightarrow> Response" where
  "text_frame t = Response0\<lparr>R_Delta_Text := t\<rparr>"

text \<open>
  A decoder that knows two payloads of the Anthropic shape and rejects every
  other payload as malformed; used for sample runs.
\<close>

definition sample_dec :: "string \<Rightarrow> Response option" where
  \<open>sample_dec p =
     (if p = ''{"delta":{"thinking":"abc"}}'' then Some (thinking_frame ''abc'')
      else if p = ''{"delta":{"text":"def"}}'' then Some (text_frame ''def'')
      else None)\<close>

declare interpolate_loop.simps [simp del]

section \<open>The profile table\<close>

text \<open>
  Two characters of the DeepSeek template lie outside ASCII; they are given by
  their UTF-8 bytes: the full-width vertical line and the lower one-eighth block.
\<close>

definition bar :: string where
  "bar = [CHR 0xEF, CHR 0xBD, CHR 0x9C]"

definition blk :: string where
  "blk = [CHR 0xE2, CHR 0x96, CHR 0x81]"

definition DefaultProfile :: string where
  "DefaultProfile = ''llama.cpp''"

definition Profiles_table :: "(string \<times> string list) list" where
  \<open>Profiles_table =
   [
    (''llama.cpp'',
      [''!api http://localhost:8080/'',
       ''!:cache_prompt true'',
       ''!:stop ["<|im_end|>"]'']),
    (''huggingface.co'',
      [''!api https://api-inference.huggingface.co/models/{model}/v1'',
       ''!>authorization Bearer $HF_TOKEN'',
       ''!>x-use-cache false'',
       ''!:model meta-llama/Llama-3.3-70B-Instruct'']),
    (''qwen3'',
      [''/no_think'',
       ''!:temperature 0.7'',
       ''!:min_p 0.0'',
       ''!:top_p 0.8'',
       ''!:top_k 20'',
       ''!exclude think'']),
    (''qwen3-think'',
      [''!:temperature 0.6'',
       ''!:min_p 0.0'',
       ''!:top_p 0.95'',
       ''!:top_k 20'',
       ''!:max_tokens 16384'',
       ''!exclude think'']),
    (''qwen3-instruct'',
      [''!:temperature 0.7'',
       ''!:min_p 0.0'',
       ''!:top_p 0.8'',
       ''!:top_k 20'',
       ''!:max_tokens 16384'']),
    (''gemma-3'',
      [''!:temperature 1.0'',
       ''!:top_k 64'',
       ''!:top_p 0.95'',
       ''!:min_p 0.01'',
       ''!:repeat_penalty 1.0'']),
    (''gemini'',
      [''!api https://generativelanguage.googleapis.com/v1beta'',
       ''!>authorization Bearer $GEMINI_API_KEY'',
       ''!:model gemini-2.5-pro-exp-03-25'',
       ''!:max_tokens 10000'']),
    (''claude'',
      [''!api "https://api.anthropic.com/v1/messages"'',
       ''!>anthropic-version 2023-06-01'',
       ''!>x-api-key $ANTHROPIC_API_KEY'',
       ''!:model claude-opus-4-0'',
       ''!:max_tokens 10000'']),
    (''claude-extended'',
      [''!profile claude'',
       ''!:max_tokens 20000'',
       ''!:thinking {"type": "enabled", "budget_tokens": 10000}'',
       ''!exclude think'']),
    (''openai'',
      [''!api https://api.openai.com/v1'',
       ''!>authorization Bearer $OPENAI_API_KEY'',
       ''!:model gpt-4.1-mini'',
       ''!:max_tokens'',
       ''!:max_completion_tokens 10000'']),
    (''fim:deepseek'',
      [''!infill <'' @ bar @ ''begin'' @ blk @ ''of'' @ blk @ ''sentence'' @ bar @ ''><'' @ bar
         @ ''fim'' @ blk @ ''begin'' @ bar @ ''>{prefix}<'' @ bar @ ''fim'' @ blk @ ''hole'' @ bar
         @ ''>{suffix}<'' @ bar @ ''fim'' @ blk @ ''end'' @ bar @ ''>'']),
    (''fim:qwen'',
      [''!infill <|fim_prefix|>{prefix}<|fim_suffix|>{suffix}<|fim_middle|>'']),
    (''fim:granite'',
      [''!infill <fim_prefix>{prefix}<fim_suffix>{suffix}<fim_middle>'']),
    (''fim:mistral'',
      [''!infill [SUFFIX]{suffix}[PREFIX]{prefix}'']),
    (''fim:codellama'',
      [''!infill  <PRE> {prefix} <SUF>{suffix} <MID>'',
       ''!:stop ["<EOT>"]''])
   ]\<close>

definition Profiles :: "string \<rightharpoonup> string list" where
  "Profiles = map_of Profiles_table"

section \<open>The standard library and the operating system\<close>

text \<open>
  \<^verbatim>\<open>strings.TrimSpace\<close> removes the leading and the trailing white space as
  Unicode defines it.  On the UTF-8 bytes of a Go string these are the six ASCII
  bytes tab, line feed, vertical tab, form feed, carriage return and space, the
  two-byte encodings of U+0085 and U+00A0, and the three-byte encodings of
  U+1680, U+2000 to U+200A, U+2028, U+2029, U+202F, U+205F and U+3000.
\<close>

definition space1 :: "char \<Rightarrow> bool" where
  "space1 a = (a \<in> set [CHR 0x09, CHR 0x0A, CHR 0x0B, CHR 0x0C, CHR 0x0D, CHR 0x20])"

definition space2 :: "char \<Rightarrow> char \<Rightarrow> bool" where
  "space2 a b = (a = CHR 0xC2 \<and> (b = CHR 0x85 \<or> b = CHR 0xA0))"

definition space3 :: "char \<Rightarrow> char \<Rightarrow> char \<Rightarrow> bool" where
  "space3 a b c =
     ((a = CHR 0xE1 \<and> b = CHR 0x9A \<and> c = CHR 0x80)
      \<or> (a = CHR 0xE2 \<and> b = CHR 0x80 \<and>
           c \<in> set [CHR 0x80, CHR 0x81, CHR 0x82, CHR 0x83, CHR 0x84, CHR 0x85, CHR 0x86,
                      CHR 0x87, CHR 0x88, CHR 0x89, CHR 0x8A, CHR 0xA8, CHR 0xA9, CHR 0xAF])
      \<or> (a = CHR 0xE2 \<and> b = CHR 0x81 \<and> c = CHR 0x9F)
      \<or> (a = CHR 0xE3 \<and> b = CHR 0x80 \<and> c = CHR 0x80))"

fun TrimLeftSpace :: "string \<Rightarrow> string" where
  "TrimLeftSpace (a # b # c # s) =
     (if space1 a then TrimLeftSpace (b # c # s)
      else if space2 a b then TrimLeftSpace (c # s)
      else if space3 a b c then TrimLeftSpace s
      else a # b # c # s)"
| "TrimLeftSpace [a, b] =
     (if space1 a then TrimLeftSpace [b]
      else if space2 a b then []
      else [a, b])"
| "TrimLeftSpace [a] = (if space1 a then [] else [a])"
| "TrimLeftSpace [] = []"

text \<open>The same from the end, on the reversed string.\<close>

fun TrimRightSpace_rev :: "string \<Rightarrow> string" where
  "TrimRightSpace_rev (c # b # a # s) =
     (if space1 c then TrimRightSpace_rev (b # a # s)
      else if space2 b c then TrimRightSpace_rev (a # s)
      else if space3 a b c then TrimRightSpace_rev s
      else c # b # a # s)"
| "TrimRightSpace_rev [c, b] =
     (if space1 c then TrimRightSpace_rev [b]
      else if space2 b c then []
      else [c, b])"
| "TrimRightSpace_rev [c] = (if space1 c then [] else [c])"
| "TrimRightSpace_rev [] = []"

definition TrimSpace :: "string \<Rightarrow> string" where
  "TrimSpace s = rev (TrimRightSpace_rev (rev (TrimLeftSpace s)))"

definition ContainsAny :: "string \<Rightarrow> string \<Rightarrow> bool" where
  "ContainsAny s chars = list_ex (\<lambda>c. c \<in> set chars) s"

text \<open>
  What the program takes from outside itself: the JSON decoder and encoder, the
  file system, the environment, and the collaborators that format external
  content.  A failing call returns its error; \<^verbatim>\<open>json.Unmarshal\<close> returns \<open>None\<close>
  when it fails.
\<close>

record env =
  json_value :: "string \<Rightarrow> jvalue option"
    \<comment> \<open>\<^verbatim>\<open>json.Unmarshal\<close> into an \<^verbatim>\<open>interface{}\<close>\<close>
  json_string :: "string \<Rightarrow> string option"
    \<comment> \<open>\<^verbatim>\<open>json.Unmarshal\<close> into a \<^verbatim>\<open>string\<close>\<close>
  json_encode :: "jvalue \<Rightarrow> string"
    \<comment> \<open>the JSON text the encoder writes for a value\<close>
  ReadFile :: "string \<Rightarrow> error + string"
    \<comment> \<open>\<^verbatim>\<open>ioutil.ReadFile\<close>\<close>
  profile_beside_exe :: "string \<Rightarrow> string option"
    \<comment> \<open>\<^verbatim>\<open>path.Join(filepath.Dir(exe), profile+".profile")\<close>, \<open>None\<close> when
        \<^verbatim>\<open>os.Executable\<close> fails\<close>
  ExpandEnv :: "string \<Rightarrow> string"
    \<comment> \<open>\<^verbatim>\<open>os.ExpandEnv\<close>\<close>
  ILLUME_PROFILE :: string
    \<comment> \<open>\<^verbatim>\<open>os.Getenv("ILLUME_PROFILE")\<close>\<close>
  addcontext :: "string \<Rightarrow> error + string"
    \<comment> \<open>the text \<^verbatim>\<open>addcontext\<close> appends for a \<^verbatim>\<open>!context\<close> line\<close>
  emitreddit :: "string \<Rightarrow> bool \<Rightarrow> error + string"
    \<comment> \<open>the text \<^verbatim>\<open>emitreddit\<close> appends for a path\<close>
  emitgithub :: "string \<Rightarrow> error + string"
    \<comment> \<open>the text \<^verbatim>\<open>emitgithub\<close> appends for the fields of a \<^verbatim>\<open>!github\<close> line\<close>

section \<open>The chat state\<close>

datatype request_type = TypeChat | TypeCompletion | TypeInfill | TypeFim

record ChatState =
  Profile :: string
  Api :: string
  FimTmpl :: string
  Prepend :: string
  Exclude :: string
  Builder :: Builder
  Data :: "string \<rightharpoonup> jvalue"
  UserSet :: "string \<rightharpoonup> bool"
  Headers :: "string \<rightharpoonup> string"
  Type :: request_type
  Debug :: bool
  Stats :: bool
  Excluding :: bool

definition InvalidUrl :: string where
  "InvalidUrl = ''http://invalid./''"

definition NewChatState :: ChatState where
  "NewChatState =
     \<lparr>Profile = [], Api = InvalidUrl, FimTmpl = [], Prepend = [], Exclude = [],
      Builder = Builder0,
      Data = [''max_tokens'' \<mapsto> JNum 2000],
      UserSet = Map.empty,
      Headers = [''content-type'' \<mapsto> ''application/json''],
      Type = TypeChat, Debug = False, Stats = False, Excluding = False\<rparr>"

text \<open>The profile body that \<^verbatim>\<open>LoadProfile\<close> finds, or the error it returns.\<close>

definition profile_body :: "env \<Rightarrow> string \<Rightarrow> error + string" where
  "profile_body env profile =
     (case Profiles profile of
        Some lines \<Rightarrow> Inr (concat (map (\<lambda>line. line @ [LF]) lines))
      | None \<Rightarrow>
          (case ReadFile env profile of
             Inr buf \<Rightarrow> Inr buf
           | Inl err \<Rightarrow>
               if ContainsAny profile [CHR ''/'', CHR 0x5C] then Inl err
               else (case profile_beside_exe env profile of
                       None \<Rightarrow> Inl err
                     | Some relpath \<Rightarrow>
                         (case ReadFile env relpath of
                            Inl relerr \<Rightarrow> Inl err
                          | Inr relbuf \<Rightarrow> Inr relbuf))))"

datatype tagkind = TagNone | TagOpen | TagClose

definition tagmatch :: "string \<Rightarrow> string \<Rightarrow> tagkind" where
  "tagmatch s tag =
     (if length s > 2 \<and> s ! 0 = CHR ''<'' \<and> s ! (length s - 1) = CHR ''>'' then
        (if length s = length tag + 2 then
           (if take (length tag) (drop 1 s) = tag then TagOpen else TagNone)
         else if length s = length tag + 3 then
           (if take (length tag) (drop 2 s) = tag \<and> s ! 1 = CHR ''/'' then TagClose else TagNone)
         else TagNone)
      else TagNone)"

section \<open>The directive interpreter\<close>

text \<open>
  What one round of the loop of \<^verbatim>\<open>Load\<close> does with a line: go on with the next
  line in a new state (\<^verbatim>\<open>continue\<close>, or the end of the loop body), leave the
  loop (\<^verbatim>\<open>break\<close>), return an error, or call \<^verbatim>\<open>LoadProfile\<close>.
\<close>

datatype outcome =
    Continue ChatState
  | Break
  | Return error
  | CallLoadProfile string

text \<open>The test of the exclusion tag at the head of the loop body.\<close>

definition exclude_step :: "string \<Rightarrow> ChatState \<Rightarrow> ChatState option" where
  "exclude_step line s =
     (if length (Exclude s) > 0 then
        (let match = tagmatch line (Exclude s)
         in if Excluding s then Some (s\<lparr>Excluding := (match \<noteq> TagClose)\<rparr>)
            else if \<not> Excluding s \<and> match = TagOpen then Some (s\<lparr>Excluding := True\<rparr>)
            else None)
      else None)"

text \<open>Writing the text of a collaborator to the segment in progress.\<close>

definition embed :: "error + string \<Rightarrow> ChatState \<Rightarrow> outcome" where
  "embed r s =
     (case r of
        Inl err \<Rightarrow> Return err
      | Inr text \<Rightarrow> Continue (s\<lparr>Builder := (Builder s)\<lparr>Content := Content (Builder s) @ text\<rparr>\<rparr>))"

text \<open>The branches for \<^verbatim>\<open>!>key\<close> and \<^verbatim>\<open>!:key\<close>.\<close>

definition set_header :: "env \<Rightarrow> string \<Rightarrow> string \<Rightarrow> ChatState \<Rightarrow> ChatState" where
  "set_header env command args s =
     (let key = drop 2 command;
          args = TrimSpace args
      in if args = [] then s\<lparr>Headers := (Headers s)(key := None)\<rparr>
         else s\<lparr>Headers := (Headers s)(key \<mapsto> ExpandEnv env args)\<rparr>)"

definition set_data :: "env \<Rightarrow> nat \<Rightarrow> string \<Rightarrow> string \<Rightarrow> ChatState \<Rightarrow> ChatState" where
  "set_data env depth command args s =
     (let key = drop 2 command
      in if depth > 0 \<and> UserSet s key = Some True then s
         else
           (let args = TrimSpace args;
                s1 = (if args = [] then s\<lparr>Data := (Data s)(key := None)\<rparr>
                      else s\<lparr>Data := (Data s)(key \<mapsto>
                             (case json_value env args of None \<Rightarrow> JStr args | Some v \<Rightarrow> v))\<rparr>)
            in s1\<lparr>UserSet := (UserSet s1)(key \<mapsto> (depth = 0))\<rparr>))"

text \<open>The chain of tests on the command, in the order of the source.\<close>

definition directive :: "env \<Rightarrow> nat \<Rightarrow> string \<Rightarrow> ChatState \<Rightarrow> outcome" where
  "directive env depth line s =
     (case cut line CHR '' '' of (command, args, _) \<Rightarrow>
      if HasPrefix line ''!!'' then Continue (s\<lparr>Builder := Append (drop 1 line) (Builder s)\<rparr>)
      else if command = ''!profile'' then CallLoadProfile (TrimSpace args)
      else if command = ''!debug'' then Continue (s\<lparr>Debug := True\<rparr>)
      else if command = ''!stats'' then Continue (s\<lparr>Stats := True\<rparr>)
      else if command = ''!prepend'' then
        Continue (s\<lparr>Prepend :=
          (if length args > 1 \<and> args ! 0 = CHR 0x22
           then (case json_string env args of None \<Rightarrow> args | Some t \<Rightarrow> t)
           else args)\<rparr>)
      else if command = ''!completion'' then Continue (s\<lparr>Type := TypeCompletion\<rparr>)
      else if command = ''!context'' then embed (addcontext env line) s
      else if command = ''!reddit'' then embed (emitreddit env (TrimSpace args) True) s
      else if command = ''!reddit!'' then embed (emitreddit env (TrimSpace args) False) s
      else if command = ''!github'' then embed (emitgithub env line) s
      else if command = ''!note'' then Continue s
      else if command = ''!exclude'' then Continue (s\<lparr>Exclude := TrimSpace args\<rparr>)
      else if command = ''!begin'' then Continue (s\<lparr>Builder := Builder0\<rparr>)
      else if command = ''!end'' then Break
      else if command = ''!api'' then
        Continue (if Api s = InvalidUrl \<or> depth = 0 then s\<lparr>Api := TrimSpace args\<rparr> else s)
      else if command = ''!assistant'' \<or> command = ''!user'' then
        Continue (s\<lparr>Builder := snd (New (drop 1 command) (Builder s))\<rparr>)
      else if command = ''!infill'' then
        Continue
          (if args = [] then
             (let s1 = (if length (FimTmpl s) > 0 then s\<lparr>Type := TypeFim\<rparr>
                        else s\<lparr>Type := TypeInfill\<rparr>)
              in s1\<lparr>Builder := snd (New ''infill'' (Builder s1))\<rparr>)
           else s\<lparr>FimTmpl := args\<rparr>)
      else if length command > 2 \<and> take 2 command = ''!>'' then
        Continue (set_header env command args s)
      else if length command > 2 \<and> take 2 command = ''!:'' then
        Continue (set_data env depth command args s)
      else Continue (s\<lparr>Builder := Append line (Builder s)\<rparr>))"

definition exec_line :: "env \<Rightarrow> nat \<Rightarrow> string \<Rightarrow> ChatState \<Rightarrow> outcome" where
  "exec_line env depth line s =
     (case exclude_step line s of
        Some s' \<Rightarrow> Continue s'
      | None \<Rightarrow> directive env depth line s)"

text \<open>
  \<^verbatim>\<open>Load\<close> and \<^verbatim>\<open>LoadProfile\<close> call each other, and nothing in the program
  bounds the nesting of profiles: a profile file that includes itself is loaded
  again and again.  The model counts the nesting down from \<open>fuel\<close>; the result
  \<open>None\<close> says that the nesting went deeper than that.  The loop of \<^verbatim>\<open>Load\<close>
  carries the line number and the rest of the text.
\<close>

function Load_loop ::
    "env \<Rightarrow> nat \<Rightarrow> string \<Rightarrow> nat \<Rightarrow> string \<Rightarrow> nat \<Rightarrow> ChatState \<Rightarrow> (error + ChatState) option"
  and LoadProfile ::
    "env \<Rightarrow> nat \<Rightarrow> string \<Rightarrow> nat \<Rightarrow> ChatState \<Rightarrow> (error + ChatState) option" where
  "Load_loop env fuel name lineno lines depth s =
     (if length lines > 0 then
        (case cut lines LF of (line, lines', _) \<Rightarrow>
           (case exec_line env depth line s of
              Continue s' \<Rightarrow> Load_loop env fuel name (lineno + 1) lines' depth s'
            | Break \<Rightarrow> Some (Inr s)
            | Return err \<Rightarrow> Some (Inl (Located name lineno err))
            | CallLoadProfile profile \<Rightarrow>
                (case LoadProfile env fuel profile depth s of
                   None \<Rightarrow> None
                 | Some (Inl err) \<Rightarrow> Some (Inl (Located name lineno err))
                 | Some (Inr s') \<Rightarrow> Load_loop env fuel name (lineno + 1) lines' depth s')))
      else Some (Inr s))"
| "LoadProfile env fuel profile depth s =
     (case profile_body env profile of
        Inl err \<Rightarrow> Some (Inl err)
      | Inr body \<Rightarrow>
          (case fuel of
             0 \<Rightarrow> None
           | Suc fuel' \<Rightarrow> Load_loop env fuel' profile 1 body (depth + 1) (s\<lparr>Profile := profile\<rparr>)))"
  by pat_completeness auto
termination
proof (relation "inv_image (less_than <*lex*> less_than)
    (\<lambda>x. case x of
       Inl (env, fuel, name, lineno, lines, depth, s) \<Rightarrow> (fuel, Suc (length lines))
     | Inr (env, fuel, profile, depth, s) \<Rightarrow> (fuel, 0))", goal_cases)
  case 1
  show ?case by (intro wf_inv_image wf_lex_prod wf_less_than)
next
  case (2 env fuel name lineno lines depth s line y lines' ok s')
  then have "cut lines LF = (line, lines', ok)" "lines \<noteq> []" by simp_all
  then have "length lines' < length lines"
    using cut_rest_shorter [of lines LF line lines' ok] by simp
  then show ?case by simp
next
  case 3
  then show ?case by simp
next
  case (4 env fuel name lineno lines depth s line y lines' ok profile r s')
  then have "cut lines LF = (line, lines', ok)" "lines \<noteq> []" by simp_all
  then have "length lines' < length lines"
    using cut_rest_shorter [of lines LF line lines' ok] by simp
  then show ?case by simp
next
  case 5
  then show ?case by simp
qed

declare Load_loop.simps [simp del] LoadProfile.simps [simp del]

definition Load :: "env \<Rightarrow> nat \<Rightarrow> string \<Rightarrow> string \<Rightarrow> nat \<Rightarrow> ChatState \<Rightarrow> (error + ChatState) option" where
  "Load env fuel name txt depth s = Load_loop env fuel name 1 txt depth s"

section \<open>The request assembler\<close>

definition HasSuffix :: "string \<Rightarrow> string \<Rightarrow> bool" where
  "HasSuffix s suffix =
     (length suffix \<le> length s \<and> drop (length s - length suffix) s = suffix)"

text \<open>
  The \<^verbatim>\<open>switch state.Type\<close> of \<^verbatim>\<open>query\<close>: the URL and the state after the
  branch, or the error with which \<^verbatim>\<open>query\<close> ends there.  Reading element 0 of an
  empty slice is a run-time panic of Go.
\<close>

definition switch_type :: "env \<Rightarrow> bool \<Rightarrow> string \<Rightarrow> ChatState \<Rightarrow> error + string \<times> ChatState" where
  "switch_type env strictapi api state =
     (case Type state of
        TypeChat \<Rightarrow>
          (let api = (if \<not> strictapi then api @ ''chat/completions'' else api);
               (msgs, b) = New [] (Builder state)
           in Inr (api, state\<lparr>Builder := b, Data := (Data state)(''messages'' \<mapsto> JMessages msgs)\<rparr>))
      | TypeCompletion \<Rightarrow>
          (let api = (if \<not> strictapi then api @ ''completions'' else api);
               (msgs, b) = New [] (Builder state)
           in (case msgs of
                 [] \<Rightarrow> Inl (IndexOutOfRange 0 0)
               | m # _ \<Rightarrow>
                   Inr (api, state\<lparr>Builder := b, Data := (Data state)(''prompt'' \<mapsto> JStr (content m))\<rparr>)))
      | TypeInfill \<Rightarrow>
          (let api = (if \<not> strictapi then api @ ''infill'' else api);
               state = state\<lparr>Data := (Data state)(''prompt'' \<mapsto> JStr [])\<rparr>;
               (parts, b) = New [] (Builder state)
           in (case parts of
                 [] \<Rightarrow> Inl (IndexOutOfRange 0 0)
               | p0 # _ \<Rightarrow>
                   (let state = state\<lparr>Builder := b,
                          Data := (Data state)(''input_prefix'' \<mapsto> JStr (content p0 @ [LF]))\<rparr>
                    in Inr (api,
                         if length parts > 1
                         then state\<lparr>Data := (Data state)
                                (''input_suffix'' \<mapsto> JStr ([LF] @ content (parts ! 1)))\<rparr>
                         else state\<lparr>Data := (Data state)(''input_suffix'' \<mapsto> JStr [])\<rparr>))))
      | TypeFim \<Rightarrow>
          (let api = (if \<not> strictapi then api @ ''completions'' else api);
               (parts, b) = New [] (Builder state)
           in (case parts of
                 [] \<Rightarrow> Inl (IndexOutOfRange 0 0)
               | p0 # _ \<Rightarrow>
                   (let vars = [''prefix'' \<mapsto> JStr (content p0 @ [LF]), ''suffix'' \<mapsto> JStr []];
                        vars = (if length parts > 1
                                then vars(''suffix'' \<mapsto> JStr ([LF] @ content (parts ! 1)))
                                else vars)
                    in (case interpolate (json_encode env) (FimTmpl state) vars of
                          Inl err \<Rightarrow> Inl (InfillError err)
                        | Inr prompt \<Rightarrow>
                            Inr (api, state\<lparr>Builder := b,
                                   Data := (Data state)(''prompt'' \<mapsto> JStr prompt)\<rparr>))))))"

text \<open>
  \<^verbatim>\<open>query\<close> from the interpolation of the URL to the point where the body is
  serialized: the URL of the request and the state whose \<open>Data\<close> is the body
  and whose \<open>Headers\<close> are the headers.
\<close>

definition assemble :: "env \<Rightarrow> ChatState \<Rightarrow> error + string \<times> ChatState" where
  "assemble env state =
     (case interpolate (json_encode env) (Api state) (Data state) of
        Inl err \<Rightarrow> Inl (InterpolatingURL err)
      | Inr api \<Rightarrow>
          (let strictapi = (length api > 2 \<and> api ! 0 = CHR 0x22 \<and> api ! (length api - 1) = CHR 0x22);
               api = (if strictapi then take (length api - 2) (drop 1 api) else api);
               api = (if \<not> strictapi \<and> \<not> HasSuffix api ''/'' then api @ ''/'' else api)
           in (case switch_type env strictapi api state of
                 Inl err \<Rightarrow> Inl err
               | Inr (api, state) \<Rightarrow>
                   Inr (api, state\<lparr>Data := (Data state)(''stream'' \<mapsto> JBool True)\<rparr>))))"

text \<open>
  \<^verbatim>\<open>query\<close> up to there: the document is loaded at depth 0, then the default
  profile if no profile was loaded, then the request is assembled.
\<close>

definition default_profile :: "env \<Rightarrow> string" where
  "default_profile env = (if ILLUME_PROFILE env = [] then DefaultProfile else ILLUME_PROFILE env)"

definition query_request :: "env \<Rightarrow> nat \<Rightarrow> string \<Rightarrow> (error + string \<times> ChatState) option" where
  "query_request env fuel txt =
     (case Load env fuel ''<stdin>'' txt 0 NewChatState of
        None \<Rightarrow> None
      | Some (Inl err) \<Rightarrow> Some (Inl err)
      | Some (Inr state) \<Rightarrow>
          (case (if Profile state = [] then LoadProfile env fuel (default_profile env) 1 state
                 else Some (Inr state)) of
             None \<Rightarrow> None
           | Some (Inl err) \<Rightarrow> Some (Inl err)
           | Some (Inr state) \<Rightarrow> Some (assemble env state)))"

section \<open>Notions used to state properties of documents\<close>

text \<open>
  The lines that the loop of \<^verbatim>\<open>Load\<close> reads from a text, the command of a line,
  whether some line of a text is a \<^verbatim>\<open>!:key\<close> directive for a given key, and the
  profiles that the \<^verbatim>\<open>!profile\<close> lines of a text name.
\<close>

function lines_of :: "string \<Rightarrow> string list" where
  "lines_of txt =
     (if length txt > 0 then (case cut txt LF of (line, rest, _) \<Rightarrow> line # lines_of rest)
      else [])"
  by pat_completeness auto
termination
proof (relation "measure length", goal_cases)
  case 1
  show ?case by simp
next
  case (2 t line y rest ok)
  then have "cut t LF = (line, rest, ok)" "t \<noteq> []" by simp_all
  then have "length rest < length t"
    using cut_rest_shorter [of t LF line rest ok] by simp
  then show ?case by simp
qed

declare lines_of.simps [simp del]

definition command_of :: "string \<Rightarrow> string" where
  "command_of line = fst (cut line CHR '' '')"

definition args_of :: "string \<Rightarrow> string" where
  "args_of line = fst (snd (cut line CHR '' ''))"

definition sets_key :: "string \<Rightarrow> string \<Rightarrow> bool" where
  "sets_key key txt = list_ex (\<lambda>line. command_of line = ''!:'' @ key) (lines_of txt)"

definition included :: "string \<Rightarrow> string list" where
  "included txt =
     map (\<lambda>line. TrimSpace (args_of line))
       (filter (\<lambda>line. command_of line = ''!profile'') (lines_of txt))"

text \<open>
  An environment for sample runs: no files, no variables, a decoder that knows
  the three JSON literals, and collaborators that always fail.
\<close>

definition bare_env :: env where
  "bare_env =
     \<lparr>json_value = (\<lambda>t. if t = ''true'' then Some (JBool True)
                         else if t = ''false'' then Some (JBool False)
                         else if t = ''null'' then Some JNull else None),
      json_string = (\<lambda>t. None),
      json_encode = (\<lambda>v. []),
      ReadFile = (\<lambda>path. Inl (OSError ''no such file or directory'')),
      profile_beside_exe = (\<lambda>profile. None),
      ExpandEnv = (\<lambda>t. t),
      ILLUME_PROFILE = [],
      addcontext = (\<lambda>line. Inl (OSError ''no such file or directory'')),
      emitreddit = (\<lambda>path withcomments. Inl (OSError ''no such file or directory'')),
      emitgithub = (\<lambda>line. Inl (OSError ''no such file or directory''))\<rparr>"

text \<open>
  The state after \<^verbatim>\<open>!:max_tokens 7\<close> at the top level of a document; used for sample
  runs, where the profile \<^verbatim>\<open>openai\<close> then tries to delete \<^verbatim>\<open>max_tokens\<close>.
\<close>

definition hard7 :: ChatState where
  "hard7 = set_data bare_env 0 ''!:max_tokens'' ''7'' NewChatState"

text \<open>
  The keys a template references: the \<^verbatim>\<open>{key}\<close> spans in the order in which the
  loop of \<^verbatim>\<open>interpolate\<close> meets them, read off with the same two calls of
  \<^verbatim>\<open>cut\<close>.  Only used to state properties.
\<close>

function placeholders :: "string \<Rightarrow> string list" where
  "placeholders s =
     (case cut s CHR ''{'' of (pre, key, ok) \<Rightarrow>
        if \<not> ok then []
        else (case cut key CHR ''}'' of (key', s', ok') \<Rightarrow>
          if \<not> ok' then [] else key' # placeholders s'))"
  by pat_completeness auto
termination
proof (relation "measure length", goal_cases)
  case 1
  show ?case by simp
next
  case (2 s pre y key ok key' y2 s' ok')
  then have "cut s CHR ''{'' = (pre, key, True)" "cut key CHR ''}'' = (key', s', True)"
    by auto
  then have "length s' < length s"
    using cut_length [of s "CHR ''{''" pre key] cut_length [of key "CHR ''}''" key' s']
    by simp
  then show ?case by simp
qed

declare placeholders.simps [simp del]

section \<open>Properties of cut and interpolate\<close>

lemma cut_notin: "b \<notin> set s \<Longrightarrow> cut s b = (s, [], False)"
  by (induction s) auto

lemma cut_first: "b \<notin> set pre \<Longrightarrow> cut (pre @ b # post) b = (pre, post, True)"
  by (induction pre) auto

lemma interpolate_loop_acc:
  "interpolate_loop enc s vars acc = map_sum id ((@) acc) (interpolate_loop enc s vars [])"
proof (induction "length s" arbitrary: s acc rule: less_induct)
  case less
  obtain pre key ok where c1: "cut s CHR ''{'' = (pre, key, ok)"
    by (cases "cut s CHR ''{''") auto
  obtain key' s' ok' where c2: "cut key CHR ''}'' = (key', s', ok')"
    by (cases "cut key CHR ''}''") auto
  show ?case
  proof (cases "ok \<and> ok' \<and> vars key' \<noteq> None")
    case False
    then show ?thesis
      by (subst interpolate_loop.simps, subst (2) interpolate_loop.simps)
        (auto simp: c1 c2)
  next
    case True
    then obtain v where v: "vars key' = Some v" by auto
    from True c1 c2 have "length s' < length s"
      using cut_length [of s "CHR ''{''" pre key] cut_length [of key "CHR ''}''" key' s']
      by simp
    then have ih: "interpolate_loop enc s' vars a = map_sum id ((@) a) (interpolate_loop enc s' vars [])"
      for a using less by blast
    show ?thesis
      apply (subst interpolate_loop.simps, subst (2) interpolate_loop.simps)
      apply (simp add: c1 c2 True v)
      apply (subst ih, subst (2) ih)
      apply (cases "interpolate_loop enc s' vars []")
       apply simp_all
      done
  qed
qed

lemma missing_key:
  "k \<in> set (placeholders s) \<Longrightarrow> vars k = None \<Longrightarrow>
   \<exists>k'. interpolate_loop enc s vars acc = Inl (MissingKey k') \<and>
        k' \<in> set (placeholders s) \<and> vars k' = None"
proof (induction "length s" arbitrary: s acc rule: less_induct)
  case less
  obtain pre key ok where c1: "cut s CHR ''{'' = (pre, key, ok)"
    by (cases "cut s CHR ''{''") auto
  obtain key' s' ok' where c2: "cut key CHR ''}'' = (key', s', ok')"
    by (cases "cut key CHR ''}''") auto
  from less.prems(1) have ok: "ok" "ok'"
    by (subst (asm) placeholders.simps, simp add: c1 c2 split: if_splits)+
  then have ps: "placeholders s = key' # placeholders s'"
    by (subst placeholders.simps) (simp add: c1 c2)
  from ok c1 c2 have len: "length s' < length s"
    using cut_length [of s "CHR ''{''" pre key] cut_length [of key "CHR ''}''" key' s']
    by simp
  show ?case
  proof (cases "vars key'")
    case None
    then show ?thesis
      by (subst interpolate_loop.simps) (simp add: c1 c2 ok ps)
  next
    case (Some v)
    define a where "a = acc @ pre @ (case v of JStr svalue \<Rightarrow> svalue | _ \<Rightarrow> marshal enc v)"
    from Some less.prems ps have "k \<in> set (placeholders s')" by auto
    from less.hyps [OF len this less.prems(2), of a]
    obtain k' where "interpolate_loop enc s' vars a = Inl (MissingKey k')"
      "k' \<in> set (placeholders s')" "vars k' = None" by blast
    moreover have "interpolate_loop enc s vars acc = interpolate_loop enc s' vars a"
      by (subst interpolate_loop.simps) (simp add: c1 c2 ok Some a_def)
    ultimately show ?thesis using ps by auto
  qed
qed

lemma interpolate_placeholder:
  assumes "CHR ''{'' \<notin> set pre" and "CHR ''}'' \<notin> set k" and "vars k = Some v"
  shows "interpolate enc (pre @ ''{'' @ k @ ''}'' @ post) vars =
         map_sum id ((@) (pre @ (case v of JStr svalue \<Rightarrow> svalue | _ \<Rightarrow> marshal enc v)))
           (interpolate enc post vars)"
proof -
  have "cut (pre @ CHR ''{'' # k @ CHR ''}'' # post) CHR ''{'' = (pre, k @ CHR ''}'' # post, True)"
    using assms(1) by (rule cut_first)
  moreover have "cut (k @ CHR ''}'' # post) CHR ''}'' = (k, post, True)"
    using assms(2) by (rule cut_first)
  ultimately show ?thesis
    unfolding interpolate_def
    by (subst interpolate_loop.simps) (simp add: assms(3) interpolate_loop_acc [symmetric])
qed

text \<open>
  Claim C2.  With the mapping \<open>{a: "x", b: "y"}\<close> the template \<^verbatim>\<open>{a}/{b}\<close>
  interpolates to \<^verbatim>\<open>x/y\<close>.  A template that references a key absent from the
  mapping fails with a missing-key error (naming the first absent key that is
  referenced); in particular \<^verbatim>\<open>{a}/{b}\<close> without \<open>b\<close> fails with the missing
  key \<open>b\<close>.  The template \<^verbatim>\<open>{a\<close>, whose brace is never closed, fails with the
  unmatched-brace error, whatever the mapping.
\<close>

theorem interpolate_contract:
  "interpolate enc ''{a}/{b}'' [''a'' \<mapsto> JStr ''x'', ''b'' \<mapsto> JStr ''y''] = Inr ''x/y''
   \<and> interpolate enc ''{a}/{b}'' [''a'' \<mapsto> JStr ''x''] = Inl (MissingKey ''b'')
   \<and> (b \<in> set (placeholders s) \<and> vars b = None \<longrightarrow>
        (\<exists>k. interpolate enc s vars = Inl (MissingKey k) \<and>
             k \<in> set (placeholders s) \<and> vars k = None))
   \<and> interpolate enc ''{a'' vars = Inl UnmatchedBrace"
proof (intro conjI impI)
  show "interpolate enc ''{a}/{b}'' [''a'' \<mapsto> JStr ''x'', ''b'' \<mapsto> JStr ''y''] = Inr ''x/y''"
    by (simp add: interpolate_def interpolate_loop.simps)
  show "interpolate enc ''{a}/{b}'' [''a'' \<mapsto> JStr ''x''] = Inl (MissingKey ''b'')"
    by (simp add: interpolate_def interpolate_loop.simps)
  show "interpolate enc ''{a'' vars = Inl UnmatchedBrace"
    by (simp add: interpolate_def interpolate_loop.simps)
  assume "b \<in> set (placeholders s) \<and> vars b = None"
  then show "\<exists>k. interpolate enc s vars = Inl (MissingKey k) \<and>
                 k \<in> set (placeholders s) \<and> vars k = None"
    unfolding interpolate_def using missing_key [of b s vars enc "[]"] by blast
qed

theorem interpolate_contract_witness:
  "''b'' \<in> set (placeholders ''{a}/{b}'') \<and> [''a'' \<mapsto> JStr ''x''] ''b'' = None
   \<and> (\<exists>k. interpolate (\<lambda>v. []) ''{a}/{b}'' [''a'' \<mapsto> JStr ''x''] = Inl (MissingKey k))"
proof -
  have h: "''b'' \<in> set (placeholders ''{a}/{b}'') \<and> [''a'' \<mapsto> JStr ''x''] ''b'' = None"
    by (simp add: placeholders.simps)
  with interpolate_contract [of "\<lambda>v. []" "''b''" "''{a}/{b}''" "[''a'' \<mapsto> JStr ''x'']"]
  show ?thesis by blast
qed

text \<open>
  Claim C9.  A placeholder whose value is not a string is replaced by the output
  of \<^verbatim>\<open>marshal\<close>, which is the JSON text of the value followed by a line feed:
  the line feed written by the encoder stays in the result.  With \<open>k\<close> bound to
  the number 5 the template \<^verbatim>\<open>{k}\<close> gives the two bytes \<^verbatim>\<open>5\<close> and line feed.
\<close>

theorem interpolate_non_string_newline:
  "(CHR ''{'' \<notin> set pre \<and> CHR ''}'' \<notin> set k \<and> vars k = Some v \<and> (\<forall>t. v \<noteq> JStr t) \<longrightarrow>
      interpolate enc (pre @ ''{'' @ k @ ''}'' @ post) vars =
        (case interpolate enc post vars of
           Inl e \<Rightarrow> Inl e
         | Inr r \<Rightarrow> Inr (pre @ json_text enc v @ [LF] @ r)))
   \<and> interpolate enc ''{k}'' [''k'' \<mapsto> JNum 5] = Inr [CHR ''5'', CHR 0x0A]
   \<and> interpolate enc ''{k}'' [''k'' \<mapsto> JNum 5] \<noteq> Inr ''5''"
proof (intro conjI impI)
  show five: "interpolate enc ''{k}'' [''k'' \<mapsto> JNum 5] = Inr [CHR ''5'', CHR 0x0A]"
    by (simp add: interpolate_def interpolate_loop.simps marshal_def decimal_def LF_def)
  show "interpolate enc ''{k}'' [''k'' \<mapsto> JNum 5] \<noteq> Inr ''5''"
    unfolding five by simp
  assume a: "CHR ''{'' \<notin> set pre \<and> CHR ''}'' \<notin> set k \<and> vars k = Some v \<and> (\<forall>t. v \<noteq> JStr t)"
  then have "(case v of JStr svalue \<Rightarrow> svalue | _ \<Rightarrow> marshal enc v) = json_text enc v @ [LF]"
    by (cases v) (simp_all add: marshal_def)
  with a interpolate_placeholder [of pre k vars v enc post]
  show "interpolate enc (pre @ ''{'' @ k @ ''}'' @ post) vars =
        (case interpolate enc post vars of
           Inl e \<Rightarrow> Inl e
         | Inr r \<Rightarrow> Inr (pre @ json_text enc v @ [LF] @ r))"
    by (cases "interpolate enc post vars") simp_all
qed

theorem interpolate_non_string_newline_witness:
  "CHR ''{'' \<notin> set ''n='' \<and> CHR ''}'' \<notin> set ''max_tokens''
   \<and> [''max_tokens'' \<mapsto> JNum 2000] ''max_tokens'' = Some (JNum 2000)
   \<and> (\<forall>t. JNum 2000 \<noteq> JStr t)
   \<and> interpolate (\<lambda>v. []) ''n={max_tokens};'' [''max_tokens'' \<mapsto> JNum 2000]
       = Inr (''n=2000'' @ [CHR 0x0A] @ '';'')"
proof -
  have h: "CHR ''{'' \<notin> set ''n='' \<and> CHR ''}'' \<notin> set ''max_tokens''
     \<and> [''max_tokens'' \<mapsto> JNum 2000] ''max_tokens'' = Some (JNum 2000)
     \<and> (\<forall>t. JNum 2000 \<noteq> JStr t)"
    by simp
  have p: "interpolate (\<lambda>v. []) '';'' [''max_tokens'' \<mapsto> JNum 2000] = Inr '';''"
    by (simp add: interpolate_def interpolate_loop.simps)
  from h interpolate_non_string_newline
    [of "''n=''" "''max_tokens''" "[''max_tokens'' \<mapsto> JNum 2000]" "JNum 2000" "\<lambda>v. []" "'';''"]
  show ?thesis
    by (simp add: p decimal_def LF_def)
qed

section \<open>Properties of the builder\<close>

lemma set_dropWhile_keeps: "x \<in> set xs \<Longrightarrow> \<not> P x \<Longrightarrow> x \<in> set (dropWhile P xs)"
  by (induction xs) auto

lemma Trim_nonempty: "x \<in> set s \<Longrightarrow> x \<notin> set cutset \<Longrightarrow> Trim s cutset \<noteq> []"
proof -
  assume a: "x \<in> set s" "x \<notin> set cutset"
  let ?P = "\<lambda>c. c \<in> set cutset"
  from a have "x \<in> set (rev (dropWhile ?P s))"
    using set_dropWhile_keeps [of x s ?P] by simp
  with a(2) have "x \<in> set (dropWhile ?P (rev (dropWhile ?P s)))"
    using set_dropWhile_keeps [of x "rev (dropWhile ?P s)" ?P] by blast
  then have "dropWhile ?P (rev (dropWhile ?P s)) \<noteq> []"
    by (metis empty_iff empty_set)
  then show ?thesis
    unfolding Trim_def by simp
qed

lemma Trim_marker: "Trim (c @ ''</tool_response>'') [CR, LF] \<noteq> []"
  by (rule Trim_nonempty [of "CHR ''<''"]) (simp_all add: CR_def LF_def)

text \<open>
  Claim C3.  In the builder of the tool-calling revision, for every call
  \<open>New_tool r b\<close>:
  \<^item> when the previous role is \<^verbatim>\<open>tool\<close>, the closing marker is appended to the
    segment before it is trimmed (so a message is always emitted for it);
  \<^item> when the new role is \<^verbatim>\<open>tool\<close>, the message list is the one a finalization
    under any other role produces, followed by an empty assistant message; this
    holds also for an empty segment, where the empty assistant message is the
    only message added;
  \<^item> the \<^verbatim>\<open>!tool\<close> directive, the one caller that passes \<^verbatim>\<open>tool\<close>, then opens
    the new segment with the leading marker.
\<close>

theorem tool_role_transitions:
  "(Role b = ''tool'' \<longrightarrow>
      Messages (snd (New_tool r b)) =
        Messages b @ [\<lparr>role = ''tool'', content = Trim (Content b @ ''</tool_response>'') [CR, LF]\<rparr>]
          @ (if r = ''tool'' then [\<lparr>role = ''assistant'', content = []\<rparr>] else []))
   \<and> (r \<noteq> ''tool'' \<longrightarrow>
      Messages (snd (New_tool ''tool'' b)) =
        Messages (snd (New_tool r b)) @ [\<lparr>role = ''assistant'', content = []\<rparr>])
   \<and> (Role b \<noteq> ''tool'' \<and> Trim (Content b) [CR, LF] = [] \<longrightarrow>
      Messages (snd (New_tool ''tool'' b)) = Messages b @ [\<lparr>role = ''assistant'', content = []\<rparr>])
   \<and> fst (New_tool r b) = Messages (snd (New_tool r b))
   \<and> Role (snd (New_tool r b)) = r \<and> Content (snd (New_tool r b)) = []
   \<and> Messages (tool_directive b) = Messages (snd (New_tool ''tool'' b))
   \<and> Role (tool_directive b) = ''tool''
   \<and> Content (tool_directive b) = ''<tool_response>\<newline>''"
proof (intro conjI impI)
  show "fst (New_tool r b) = Messages (snd (New_tool r b))"
    by (simp add: New_tool_def Let_def)
  show "Role (snd (New_tool r b)) = r"
    by (simp add: New_tool_def Let_def)
  show "Content (snd (New_tool r b)) = []"
    by (simp add: New_tool_def Let_def)
  show "Messages (tool_directive b) = Messages (snd (New_tool ''tool'' b))"
    by (simp add: tool_directive_def Let_def)
  show "Role (tool_directive b) = ''tool''"
    by (simp add: tool_directive_def New_tool_def Let_def)
  show "Content (tool_directive b) = ''<tool_response>\<newline>''"
    by (simp add: tool_directive_def New_tool_def Let_def LF_def)
next
  assume "Role b = ''tool''"
  then show "Messages (snd (New_tool r b)) =
        Messages b @ [\<lparr>role = ''tool'', content = Trim (Content b @ ''</tool_response>'') [CR, LF]\<rparr>]
          @ (if r = ''tool'' then [\<lparr>role = ''assistant'', content = []\<rparr>] else [])"
    using Trim_marker [of "Content b"] by (simp add: New_tool_def Let_def)
next
  assume "r \<noteq> ''tool''"
  then show "Messages (snd (New_tool ''tool'' b)) =
        Messages (snd (New_tool r b)) @ [\<lparr>role = ''assistant'', content = []\<rparr>]"
    by (simp add: New_tool_def Let_def)
next
  assume "Role b \<noteq> ''tool'' \<and> Trim (Content b) [CR, LF] = []"
  then show "Messages (snd (New_tool ''tool'' b)) = Messages b @ [\<lparr>role = ''assistant'', content = []\<rparr>]"
    by (simp add: New_tool_def Let_def)
qed

theorem tool_role_transitions_witness:
  "Role (Append ''42'' (tool_directive Builder0)) = ''tool''
   \<and> ''user'' \<noteq> ''tool''
   \<and> Role Builder0 \<noteq> ''tool'' \<and> Trim (Content Builder0) [CR, LF] = []
   \<and> Messages (snd (New_tool ''tool'' Builder0)) = [\<lparr>role = ''assistant'', content = []\<rparr>]
   \<and> Messages (snd (New_tool ''user'' (Append ''42'' (tool_directive Builder0)))) =
       [\<lparr>role = ''assistant'', content = []\<rparr>,
        \<lparr>role = ''tool'', content = ''<tool_response>\<newline>42\<newline></tool_response>''\<rparr>]
   \<and> Messages (snd (New_tool ''tool'' (Append ''42'' (tool_directive Builder0)))) =
       [\<lparr>role = ''assistant'', content = []\<rparr>,
        \<lparr>role = ''tool'', content = ''<tool_response>\<newline>42\<newline></tool_response>''\<rparr>,
        \<lparr>role = ''assistant'', content = []\<rparr>]"
proof -
  let ?b = "Append ''42'' (tool_directive Builder0)"
  have h1: "Role ?b = ''tool''"
    by (simp add: Append_def tool_directive_def New_tool_def Let_def)
  have h2: "''user'' \<noteq> ''tool''"
    by simp
  have h3: "Role Builder0 \<noteq> ''tool'' \<and> Trim (Content Builder0) [CR, LF] = []"
    by (simp add: Builder0_def Trim_def)
  have t: "Trim (Content ?b @ ''</tool_response>'') [CR, LF]
      = ''<tool_response>\<newline>42\<newline></tool_response>''"
    by (simp add: Append_def tool_directive_def New_tool_def Let_def Builder0_def Trim_def
        CR_def LF_def)
  have m: "Messages ?b = [\<lparr>role = ''assistant'', content = []\<rparr>]"
    by (simp add: Append_def tool_directive_def New_tool_def Let_def Builder0_def Trim_def)
  have m0: "Messages Builder0 = []"
    by (simp add: Builder0_def)
  have c1: "Messages (snd (New_tool ''tool'' Builder0)) = [\<lparr>role = ''assistant'', content = []\<rparr>]"
    using tool_role_transitions [of Builder0 "''user''", THEN conjunct2, THEN conjunct2, THEN conjunct1]
      h3 m0 by simp
  have c2: "Messages (snd (New_tool ''user'' ?b)) =
       [\<lparr>role = ''assistant'', content = []\<rparr>,
        \<lparr>role = ''tool'', content = ''<tool_response>\<newline>42\<newline></tool_response>''\<rparr>]"
    using tool_role_transitions [of ?b "''user''", THEN conjunct1] h1 t m by simp
  have c3: "Messages (snd (New_tool ''tool'' ?b)) = Messages (snd (New_tool ''user'' ?b))
       @ [\<lparr>role = ''assistant'', content = []\<rparr>]"
    using tool_role_transitions [of ?b "''user''", THEN conjunct2, THEN conjunct1] h2 by blast
  from h1 h2 h3 c1 c2 c3 show ?thesis
    by simp
qed

section \<open>Properties of the normalizer\<close>

lemma emit_thinking:
  "R_Choices r = [] \<Longrightarrow> R_Delta_Thinking r \<noteq> [] \<Longrightarrow>
   written (emit r st) =
     written st @ (if nthinking st = 0 then ''<think>\<newline>'' else []) @ R_Delta_Thinking r
   \<and> nthinking (emit r st) > 0"
  by (simp add: emit_def WriteString_def LF_def)

lemma emit_text:
  "R_Choices r = [] \<Longrightarrow> R_Delta_Thinking r = [] \<Longrightarrow> R_Delta_Text r \<noteq> [] \<Longrightarrow>
   written (emit r st) =
     written st @ (if nthinking st > 0 then ''\<newline></think>\<newline>\<newline>'' else []) @ R_Delta_Text r
   \<and> nthinking (emit r st) = 0"
  by (simp add: emit_def WriteString_def LF_def)

lemma emit_other:
  "R_Choices r \<noteq> [] \<or> (R_Delta_Thinking r = [] \<and> R_Delta_Text r = []) \<Longrightarrow>
   nthinking (emit r st) = nthinking st"
  by (cases "R_Choices r") (auto simp add: emit_def WriteString_def Let_def)

lemma fold_thinking:
  "[] \<notin> set ths \<Longrightarrow> 0 < nthinking st \<Longrightarrow>
   written (fold emit (map thinking_frame ths) st) = written st @ concat ths \<and>
   0 < nthinking (fold emit (map thinking_frame ths) st)"
proof (induction ths arbitrary: st)
  case Nil
  then show ?case by simp
next
  case (Cons t ths)
  have "R_Choices (thinking_frame t) = []" "R_Delta_Thinking (thinking_frame t) = t"
    by (simp_all add: thinking_frame_def Response0_def)
  with Cons.prems emit_thinking [of "thinking_frame t" st]
  have "written (emit (thinking_frame t) st) = written st @ t"
    "0 < nthinking (emit (thinking_frame t) st)"
    by auto
  with Cons.IH [of "emit (thinking_frame t) st"] Cons.prems show ?case by simp
qed

lemma fold_text:
  "[] \<notin> set txs \<Longrightarrow> nthinking st = 0 \<Longrightarrow>
   written (fold emit (map text_frame txs) st) = written st @ concat txs"
proof (induction txs arbitrary: st)
  case Nil
  then show ?case by simp
next
  case (Cons t txs)
  have "R_Choices (text_frame t) = []" "R_Delta_Thinking (text_frame t) = []"
    "R_Delta_Text (text_frame t) = t"
    by (simp_all add: text_frame_def Response0_def)
  with Cons.prems emit_text [of "text_frame t" st]
  have "written (emit (text_frame t) st) = written st @ t"
    "nthinking (emit (text_frame t) st) = 0"
    by auto
  with Cons.IH [of "emit (text_frame t) st"] Cons.prems show ?case by simp
qed

lemma thinking_then_text:
  assumes "ths \<noteq> []" "[] \<notin> set ths" "txs \<noteq> []" "[] \<notin> set txs"
  shows "written (fold emit (map thinking_frame ths @ map text_frame txs) stream0) =
      ''<think>\<newline>'' @ concat ths @ ''\<newline></think>\<newline>\<newline>'' @ concat txs"
proof -
  obtain t ths' where ths: "ths = t # ths'" using assms(1) by (cases ths) auto
  obtain x txs' where txs: "txs = x # txs'" using assms(3) by (cases txs) auto
  define s1 where "s1 = emit (thinking_frame t) stream0"
  have t: "R_Choices (thinking_frame t) = []" "R_Delta_Thinking (thinking_frame t) = t" "t \<noteq> []"
    using assms(2) ths by (auto simp add: thinking_frame_def Response0_def)
  have s1: "written s1 = ''<think>\<newline>'' @ t" "0 < nthinking s1"
    using emit_thinking [of "thinking_frame t" stream0] t by (simp_all add: s1_def stream0_def)
  define s2 where "s2 = fold emit (map thinking_frame ths') s1"
  have s2: "written s2 = ''<think>\<newline>'' @ concat ths" "0 < nthinking s2"
    using fold_thinking [of ths' s1] s1 assms(2) ths by (auto simp: s2_def)
  define s3 where "s3 = emit (text_frame x) s2"
  have x: "R_Choices (text_frame x) = []" "R_Delta_Thinking (text_frame x) = []"
    "R_Delta_Text (text_frame x) = x" "x \<noteq> []"
    using assms(4) txs by (auto simp add: text_frame_def Response0_def)
  have s3: "written s3 = ''<think>\<newline>'' @ concat ths @ ''\<newline></think>\<newline>\<newline>'' @ x"
    "nthinking s3 = 0"
    using emit_text [of "text_frame x" s2] x s2 by (simp_all add: s3_def)
  have "written (fold emit (map text_frame txs') s3) = written s3 @ concat txs'"
    using fold_text [of txs' s3] s3 assms(4) txs by auto
  then show ?thesis
    by (simp add: ths txs s3 s1_def [symmetric] s2_def [symmetric] s3_def [symmetric])
qed

lemma stream_loop_cong:
  "written st = written st' \<Longrightarrow> nthinking st = nthinking st' \<Longrightarrow>
   written (stream_loop dec ls st) = written (stream_loop dec ls st') \<and>
   nthinking (stream_loop dec ls st) = nthinking (stream_loop dec ls st')"
proof (induction ls arbitrary: st st')
  case Nil
  then show ?case by simp
next
  case (Cons l ls)
  have e: "written (emit r st) = written (emit r st') \<and>
      nthinking (emit r st) = nthinking (emit r st')" for r
    using Cons.prems by (cases "R_Choices r") (simp_all add: emit_def WriteString_def Let_def)
  show ?case
    using Cons.prems Cons.IH [of st st'] Cons.IH [of "emit r st" "emit r st'" for r] e
    by (simp add: Let_def)
qed

lemma malformed_step:
  "HasPrefix line ''data: '' \<Longrightarrow> drop 6 line \<noteq> ''[DONE]'' \<Longrightarrow> dec (drop 6 line) = None \<Longrightarrow>
   stream_loop dec (line # rest) st = stream_loop dec rest (st\<lparr>nevents := nevents st + 1\<rparr>)"
  by (simp add: emit_def Response0_def WriteString_def)

lemma malformed_anywhere:
  "HasPrefix line ''data: '' \<Longrightarrow> drop 6 line \<noteq> ''[DONE]'' \<Longrightarrow> dec (drop 6 line) = None \<Longrightarrow>
   written (stream_loop dec (pre @ line # rest) st) = written (stream_loop dec (pre @ rest) st)"
proof (induction pre arbitrary: st)
  case Nil
  then show ?case
    using stream_loop_cong [of "st\<lparr>nevents := nevents st + 1\<rparr>" st dec rest]
    by (simp add: malformed_step del: stream_loop.simps)
next
  case (Cons a pre)
  then show ?case by (simp add: Let_def)
qed

text \<open>
  Claim C5.  A data frame whose delta carries the thinking fragment \<^verbatim>\<open>abc\<close>, a
  data frame whose delta carries the text \<^verbatim>\<open>def\<close> and the sentinel frame
  normalize to \<^verbatim>\<open><think>\<close>, line feed, \<^verbatim>\<open>abc\<close>, line feed, \<^verbatim>\<open></think>\<close>, two line
  feeds, \<^verbatim>\<open>def\<close>.  In general, for frames without choices: a non-empty thinking
  fragment is preceded by the opening marker exactly when no thinking fragment
  is pending, and a non-empty text fragment is preceded by the closing marker
  exactly when a thinking fragment is pending; so a run of thinking fragments
  followed by a run of text fragments is written with one opening marker in
  front and one closing marker between the two runs.
\<close>

theorem reasoning_markup:
  "(dec p1 = Some r1 \<and> R_Choices r1 = [] \<and> R_Delta_Thinking r1 = ''abc'' \<and>
    dec p2 = Some r2 \<and> R_Choices r2 = [] \<and> R_Delta_Thinking r2 = [] \<and> R_Delta_Text r2 = ''def'' \<and>
    p1 \<noteq> ''[DONE]'' \<and> p2 \<noteq> ''[DONE]'' \<longrightarrow>
      written (stream_loop dec [''data: '' @ p1, ''data: '' @ p2, ''data: [DONE]''] stream0) =
        ''<think>\<newline>abc\<newline></think>\<newline>\<newline>def'')
   \<and> (R_Choices r = [] \<and> R_Delta_Thinking r \<noteq> [] \<longrightarrow>
        written (emit r st) =
          written st @ (if nthinking st = 0 then ''<think>\<newline>'' else []) @ R_Delta_Thinking r
        \<and> nthinking (emit r st) > 0)
   \<and> (R_Choices r' = [] \<and> R_Delta_Thinking r' = [] \<and> R_Delta_Text r' \<noteq> [] \<longrightarrow>
        written (emit r' st) =
          written st @ (if nthinking st > 0 then ''\<newline></think>\<newline>\<newline>'' else []) @ R_Delta_Text r'
        \<and> nthinking (emit r' st) = 0)
   \<and> (ths \<noteq> [] \<and> [] \<notin> set ths \<and> txs \<noteq> [] \<and> [] \<notin> set txs \<longrightarrow>
        written (fold emit (map thinking_frame ths @ map text_frame txs) stream0) =
          ''<think>\<newline>'' @ concat ths @ ''\<newline></think>\<newline>\<newline>'' @ concat txs)"
proof -
  have A: "R_Choices r = [] \<and> R_Delta_Thinking r \<noteq> [] \<longrightarrow>
      written (emit r st) =
        written st @ (if nthinking st = 0 then ''<think>\<newline>'' else []) @ R_Delta_Thinking r
      \<and> nthinking (emit r st) > 0"
    using emit_thinking [of r st] by blast
  have B: "R_Choices r' = [] \<and> R_Delta_Thinking r' = [] \<and> R_Delta_Text r' \<noteq> [] \<longrightarrow>
      written (emit r' st) =
        written st @ (if nthinking st > 0 then ''\<newline></think>\<newline>\<newline>'' else []) @ R_Delta_Text r'
      \<and> nthinking (emit r' st) = 0"
    using emit_text [of r' st] by blast
  have C: "ths \<noteq> [] \<and> [] \<notin> set ths \<and> txs \<noteq> [] \<and> [] \<notin> set txs \<longrightarrow>
      written (fold emit (map thinking_frame ths @ map text_frame txs) stream0) =
        ''<think>\<newline>'' @ concat ths @ ''\<newline></think>\<newline>\<newline>'' @ concat txs"
    using thinking_then_text [of ths txs] by blast
  have D: "dec p1 = Some r1 \<and> R_Choices r1 = [] \<and> R_Delta_Thinking r1 = ''abc'' \<and>
    dec p2 = Some r2 \<and> R_Choices r2 = [] \<and> R_Delta_Thinking r2 = [] \<and> R_Delta_Text r2 = ''def'' \<and>
    p1 \<noteq> ''[DONE]'' \<and> p2 \<noteq> ''[DONE]'' \<longrightarrow>
      written (stream_loop dec [''data: '' @ p1, ''data: '' @ p2, ''data: [DONE]''] stream0) =
        ''<think>\<newline>abc\<newline></think>\<newline>\<newline>def''"
  proof
    assume a: "dec p1 = Some r1 \<and> R_Choices r1 = [] \<and> R_Delta_Thinking r1 = ''abc'' \<and>
      dec p2 = Some r2 \<and> R_Choices r2 = [] \<and> R_Delta_Thinking r2 = [] \<and> R_Delta_Text r2 = ''def'' \<and>
      p1 \<noteq> ''[DONE]'' \<and> p2 \<noteq> ''[DONE]''"
    have e1: "written (emit r1 stream0) = ''<think>\<newline>abc''" "nthinking (emit r1 stream0) > 0"
      using a emit_thinking [of r1 stream0] by (simp_all add: stream0_def)
    have e2: "written (emit r2 (emit r1 stream0)) = ''<think>\<newline>abc\<newline></think>\<newline>\<newline>def''"
      using a e1 emit_text [of r2 "emit r1 stream0"] by simp
    from a e2 show "written (stream_loop dec [''data: '' @ p1, ''data: '' @ p2, ''data: [DONE]''] stream0) =
        ''<think>\<newline>abc\<newline></think>\<newline>\<newline>def''"
      by (simp add: HasPrefix_def)
  qed
  from D A B C show ?thesis
    by (intro conjI) assumption+
qed

theorem reasoning_markup_witness:
  \<open>written (stream_loop sample_dec
      [''data: {"delta":{"thinking":"abc"}}'', ''data: {"delta":{"text":"def"}}'', ''data: [DONE]'']
      stream0) = ''<think>\<newline>abc\<newline></think>\<newline>\<newline>def''
   \<and> written (emit (thinking_frame ''abc'') stream0) = ''<think>\<newline>abc''
   \<and> written (emit (text_frame ''def'') (emit (thinking_frame ''abc'') stream0)) =
        ''<think>\<newline>abc\<newline></think>\<newline>\<newline>def''
   \<and> written (fold emit (map thinking_frame [''a'', ''bc''] @ map text_frame [''d'', ''ef'']) stream0) =
        ''<think>\<newline>abc\<newline></think>\<newline>\<newline>def''\<close>
proof -
  let ?p1 = \<open>''{"delta":{"thinking":"abc"}}''\<close> and ?p2 = \<open>''{"delta":{"text":"def"}}''\<close>
  let ?r1 = "thinking_frame ''abc''" and ?r2 = "text_frame ''def''"
  have h1: "sample_dec ?p1 = Some ?r1 \<and> R_Choices ?r1 = [] \<and> R_Delta_Thinking ?r1 = ''abc'' \<and>
      sample_dec ?p2 = Some ?r2 \<and> R_Choices ?r2 = [] \<and> R_Delta_Thinking ?r2 = [] \<and>
      R_Delta_Text ?r2 = ''def'' \<and> ?p1 \<noteq> ''[DONE]'' \<and> ?p2 \<noteq> ''[DONE]''"
    by (simp add: sample_dec_def thinking_frame_def text_frame_def Response0_def)
  have h2: "R_Choices ?r1 = [] \<and> R_Delta_Thinking ?r1 \<noteq> []"
    by (simp add: thinking_frame_def Response0_def)
  have h3: "R_Choices ?r2 = [] \<and> R_Delta_Thinking ?r2 = [] \<and> R_Delta_Text ?r2 \<noteq> []"
    by (simp add: text_frame_def Response0_def)
  have h4: "[''a'', ''bc''] \<noteq> [] \<and> [] \<notin> set [''a'', ''bc''] \<and> [''d'', ''ef''] \<noteq> [] \<and> [] \<notin> set [''d'', ''ef'']"
    by simp
  have n0: "nthinking stream0 = 0" "written stream0 = []"
    by (simp_all add: stream0_def)
  note T = reasoning_markup [of sample_dec ?p1 ?r1 ?p2 ?r2 ?r1 stream0 ?r2 "[''a'', ''bc'']" "[''d'', ''ef'']"]
  have c1: "written (stream_loop sample_dec [''data: '' @ ?p1, ''data: '' @ ?p2, ''data: [DONE]''] stream0)
      = ''<think>\<newline>abc\<newline></think>\<newline>\<newline>def''"
    using T h1 by blast
  have c2: "written (emit ?r1 stream0) = ''<think>\<newline>abc''"
    using T [THEN conjunct2, THEN conjunct1] h2 n0
    by (simp add: thinking_frame_def Response0_def)
  have c2': "nthinking (emit ?r1 stream0) > 0"
    using T [THEN conjunct2, THEN conjunct1] h2 by blast
  have c3: "written (emit ?r2 (emit ?r1 stream0)) = ''<think>\<newline>abc\<newline></think>\<newline>\<newline>def''"
    using reasoning_markup [of sample_dec ?p1 ?r1 ?p2 ?r2 ?r1 "emit ?r1 stream0" ?r2 "[]" "[]",
        THEN conjunct2, THEN conjunct2, THEN conjunct1] h3 c2 c2'
    by (simp add: text_frame_def Response0_def)
  have c4: "written (fold emit (map thinking_frame [''a'', ''bc''] @ map text_frame [''d'', ''ef'']) stream0) =
        ''<think>\<newline>'' @ concat [''a'', ''bc''] @ ''\<newline></think>\<newline>\<newline>'' @ concat [''d'', ''ef'']"
    using T [THEN conjunct2, THEN conjunct2, THEN conjunct2] h4 by blast
  from c1 c2 c3 c4 show ?thesis
    by simp
qed

text \<open>
  Claim C7.  A data frame other than the sentinel whose payload is not valid
  JSON does not end the loop: the record stays at its zero value, nothing is
  written, no marker state changes, and the loop goes on with the frames that
  follow (only the event counter moves).  Wherever such a frame stands in the
  stream, the text written for the whole stream is the text written without it.
\<close>

theorem malformed_frame_tolerated:
  "emit Response0 st = st\<lparr>nevents := nevents st + 1\<rparr>
   \<and> (HasPrefix line ''data: '' \<and> drop 6 line \<noteq> ''[DONE]'' \<and> dec (drop 6 line) = None \<longrightarrow>
        stream_loop dec (line # rest) st = stream_loop dec rest (st\<lparr>nevents := nevents st + 1\<rparr>)
        \<and> written (stream_loop dec (pre @ line # rest) st) =
            written (stream_loop dec (pre @ rest) st))"
proof (intro conjI impI)
  show "emit Response0 st = st\<lparr>nevents := nevents st + 1\<rparr>"
    by (simp add: emit_def Response0_def WriteString_def)
next
  assume a: "HasPrefix line ''data: '' \<and> drop 6 line \<noteq> ''[DONE]'' \<and> dec (drop 6 line) = None"
  then show "stream_loop dec (line # rest) st = stream_loop dec rest (st\<lparr>nevents := nevents st + 1\<rparr>)"
    using malformed_step [of line dec rest st] by blast
  from a show "written (stream_loop dec (pre @ line # rest) st) =
      written (stream_loop dec (pre @ rest) st)"
    using malformed_anywhere [of line dec pre rest st] by blast
qed

theorem malformed_frame_tolerated_witness:
  \<open>HasPrefix ''data: {"delta":'' ''data: '' \<and> drop 6 ''data: {"delta":'' \<noteq> ''[DONE]''
   \<and> sample_dec (drop 6 ''data: {"delta":'') = None
   \<and> written (stream_loop sample_dec
        [''data: {"delta":{"thinking":"abc"}}'', ''data: {"delta":'',
         ''data: {"delta":{"text":"def"}}'', ''data: [DONE]''] stream0)
      = ''<think>\<newline>abc\<newline></think>\<newline>\<newline>def''\<close>
proof -
  let ?bad = \<open>''data: {"delta":''\<close>
  let ?pre = \<open>[''data: {"delta":{"thinking":"abc"}}'']\<close>
  let ?rest = \<open>[''data: {"delta":{"text":"def"}}'', ''data: [DONE]'']\<close>
  have h: "HasPrefix ?bad ''data: '' \<and> drop 6 ?bad \<noteq> ''[DONE]'' \<and> sample_dec (drop 6 ?bad) = None"
    by (simp add: HasPrefix_def sample_dec_def)
  have "written (stream_loop sample_dec (?pre @ ?bad # ?rest) stream0) =
      written (stream_loop sample_dec (?pre @ ?rest) stream0)"
    using malformed_frame_tolerated [of stream0 ?bad sample_dec ?rest ?pre] h by blast
  moreover have "written (stream_loop sample_dec (?pre @ ?rest) stream0) =
      ''<think>\<newline>abc\<newline></think>\<newline>\<newline>def''"
    by (simp add: HasPrefix_def sample_dec_def emit_def thinking_frame_def text_frame_def
        Response0_def WriteString_def stream0_def LF_def)
  ultimately show ?thesis
    using h by simp
qed

section \<open>Properties of the directive interpreter\<close>

text \<open>
  What a line can change: every branch other than \<^verbatim>\<open>!api\<close> and \<^verbatim>\<open>!:key\<close> leaves
  the body fields, the hard-set markers and the URL as they are.
\<close>

lemma cut_eq:
  "cut s b = (pre, post, ok) \<Longrightarrow> s = pre @ (if ok then b # post else []) \<and> b \<notin> set pre"
proof (induction s arbitrary: pre post ok)
  case Nil
  then show ?case by simp
next
  case (Cons c s)
  show ?case
  proof (cases "c = b")
    case True
    with Cons.prems show ?thesis by auto
  next
    case False
    obtain p q k where c: "cut s b = (p, q, k)" by (cases "cut s b") auto
    from Cons.IH [OF c] Cons.prems False c show ?thesis by auto
  qed
qed

lemma directive_frame:
  assumes "directive env d line s = Continue s'" and "cut line CHR '' '' = (command, args, ok)"
  shows "(Data s' = Data s \<and> UserSet s' = UserSet s \<and> Api s' = Api s)
       \<or> (command = ''!api'' \<and> Data s' = Data s \<and> UserSet s' = UserSet s
            \<and> s' = (if Api s = InvalidUrl \<or> d = 0 then s\<lparr>Api := TrimSpace args\<rparr> else s))
       \<or> (length command > 2 \<and> take 2 command = ''!:'' \<and> s' = set_data env d command args s)"
proof (rule ccontr)
  let ?T = ?thesis
  assume n: "\<not> ?T"
  have e: "\<not> HasPrefix line ''!!''"
  proof
    assume "HasPrefix line ''!!''"
    with assms have ?T
      by (simp add: directive_def split del: if_split;
        auto simp: Let_def embed_def set_header_def split: sum.splits if_splits)
    with n show False ..
  qed
  have n0: "command \<noteq> ''!profile''"
  proof
    assume "command = ''!profile''"
    with e assms have ?T
      by (simp add: directive_def split del: if_split;
        auto simp: Let_def embed_def set_header_def split: sum.splits if_splits)
    with n show False ..
  qed
  have n1: "command \<noteq> ''!debug''"
  proof
    assume "command = ''!debug''"
    with e assms have ?T
      by (simp add: directive_def split del: if_split;
        auto simp: Let_def embed_def set_header_def split: sum.splits if_splits)
    with n show False ..
  qed
  have n2: "command \<noteq> ''!stats''"
  proof
    assume "command = ''!stats''"
    with e assms have ?T
      by (simp add: directive_def split del: if_split;
        auto simp: Let_def embed_def set_header_def split: sum.splits if_splits)
    with n show False ..
  qed
  have n3: "command \<noteq> ''!prepend''"
  proof
    assume "command = ''!prepend''"
    with e assms have ?T
      by (simp add: directive_def split del: if_split;
        auto simp: Let_def embed_def set_header_def split: sum.splits if_splits)
    with n show False ..
  qed
  have n4: "command \<noteq> ''!completion''"
  proof
    assume "command = ''!completion''"
    with e assms have ?T
      by (simp add: directive_def split del: if_split;
        auto simp: Let_def embed_def set_header_def split: sum.splits if_splits)
    with n show False ..
  qed
  have n5: "command \<noteq> ''!context''"
  proof
    assume "command = ''!context''"
    with e assms have ?T
      by (simp add: directive_def split del: if_split;
        auto simp: Let_def embed_def set_header_def split: sum.splits if_splits)
    with n show False ..
  qed
  have n6: "command \<noteq> ''!reddit''"
  proof
    assume "command = ''!reddit''"
    with e assms have ?T
      by (simp add: directive_def split del: if_split;
        auto simp: Let_def embed_def set_header_def split: sum.splits if_splits)
    with n show False ..
  qed
  have n7: "command \<noteq> ''!reddit!''"
  proof
    assume "command = ''!reddit!''"
    with e assms have ?T
      by (simp add: directive_def split del: if_split;
        auto simp: Let_def embed_def set_header_def split: sum.splits if_splits)
    with n show False ..
  qed
  have n8: "command \<noteq> ''!github''"
  proof
    assume "command = ''!github''"
    with e assms have ?T
      by (simp add: directive_def split del: if_split;
        auto simp: Let_def embed_def set_header_def split: sum.splits if_splits)
    with n show False ..
  qed
  have n9: "command \<noteq> ''!note''"
  proof
    assume "command = ''!note''"
    with e assms have ?T
      by (simp add: directive_def split del: if_split;
        auto simp: Let_def embed_def set_header_def split: sum.splits if_splits)
    with n show False ..
  qed
  have n10: "command \<noteq> ''!exclude''"
  proof
    assume "command = ''!exclude''"
    with e assms have ?T
      by (simp add: directive_def split del: if_split;
        auto simp: Let_def embed_def set_header_def split: sum.splits if_splits)
    with n show False ..
  qed
  have n11: "command \<noteq> ''!begin''"
  proof
    assume "command = ''!begin''"
    with e assms have ?T
      by (simp add: directive_def split del: if_split;
        auto simp: Let_def embed_def set_header_def split: sum.splits if_splits)
    with n show False ..
  qed
  have n12: "command \<noteq> ''!end''"
  proof
    assume "command = ''!end''"
    with e assms have ?T
      by (simp add: directive_def split del: if_split;
        auto simp: Let_def embed_def set_header_def split: sum.splits if_splits)
    with n show False ..
  qed
  have n13: "command \<noteq> ''!api''"
  proof
    assume "command = ''!api''"
    with e assms have ?T
      by (simp add: directive_def split del: if_split;
        auto simp: Let_def embed_def set_header_def split: sum.splits if_splits)
    with n show False ..
  qed
  have n14: "command \<noteq> ''!assistant''"
  proof
    assume "command = ''!assistant''"
    with e assms have ?T
      by (simp add: directive_def split del: if_split;
        auto simp: Let_def embed_def set_header_def split: sum.splits if_splits)
    with n show False ..
  qed
  have n15: "command \<noteq> ''!user''"
  proof
    assume "command = ''!user''"
    with e assms have ?T
      by (simp add: directive_def split del: if_split;
        auto simp: Let_def embed_def set_header_def split: sum.splits if_splits)
    with n show False ..
  qed
  have n16: "command \<noteq> ''!infill''"
  proof
    assume "command = ''!infill''"
    with e assms have ?T
      by (simp add: directive_def split del: if_split;
        auto simp: Let_def embed_def set_header_def split: sum.splits if_splits)
    with n show False ..
  qed
  note neq = n0 n1 n2 n3 n4 n5 n6 n7 n8 n9 n10 n11 n12 n13 n14 n15 n16
  have h: "\<not> (length command > 2 \<and> take 2 command = ''!>'')"
  proof
    assume "length command > 2 \<and> take 2 command = ''!>''"
    with e neq assms have ?T
      by (simp add: directive_def split del: if_split;
        auto simp: Let_def embed_def set_header_def split: sum.splits if_splits)
    with n show False ..
  qed
  have k: "\<not> (length command > 2 \<and> take 2 command = ''!:'')"
  proof
    assume "length command > 2 \<and> take 2 command = ''!:''"
    with e neq h assms have ?T
      by (simp add: directive_def split del: if_split;
        auto simp: Let_def embed_def set_header_def split: sum.splits if_splits)
    with n show False ..
  qed
  from e neq h k assms have ?T
    by (simp add: directive_def split del: if_split;
        auto simp: Let_def embed_def set_header_def split: sum.splits if_splits)
  with n show False ..
qed


lemma exclude_step_frame:
  "exclude_step line s = Some s' \<Longrightarrow> Data s' = Data s \<and> UserSet s' = UserSet s \<and> Api s' = Api s"
  by (auto simp: exclude_step_def Let_def split: if_splits)

lemma exec_line_frame:
  assumes "exec_line env d line s = Continue s'"
  shows "(Data s' = Data s \<and> UserSet s' = UserSet s \<and> Api s' = Api s)
       \<or> (command_of line = ''!api'' \<and> Data s' = Data s \<and> UserSet s' = UserSet s
            \<and> s' = (if Api s = InvalidUrl \<or> d = 0 then s\<lparr>Api := TrimSpace (args_of line)\<rparr> else s))
       \<or> (length (command_of line) > 2 \<and> take 2 (command_of line) = ''!:''
            \<and> s' = set_data env d (command_of line) (args_of line) s)"
proof (cases "exclude_step line s")
  case (Some s1)
  with assms have "s' = s1" by (simp add: exec_line_def)
  with Some exclude_step_frame [of line s s1] show ?thesis by simp
next
  case None
  obtain command args ok where c: "cut line CHR '' '' = (command, args, ok)"
    by (cases "cut line CHR '' ''") auto
  from None assms have "directive env d line s = Continue s'" by (simp add: exec_line_def)
  from directive_frame [OF this c] show ?thesis
    unfolding command_of_def args_of_def c fst_conv snd_conv .
qed

lemma set_data_hard:
  "0 < d \<Longrightarrow> UserSet s key = Some True \<Longrightarrow>
   Data (set_data env d c a s) key = Data s key \<and> UserSet (set_data env d c a s) key = Some True"
  by (auto simp add: set_data_def Let_def)

lemma set_data_marker:
  "UserSet s key = Some True \<Longrightarrow> UserSet (set_data env d c a s) key = Some True"
  by (auto simp add: set_data_def Let_def)

lemma set_data_api: "Api (set_data env d c a s) = Api s"
  by (simp add: set_data_def Let_def)

lemma set_data_other:
  "drop 2 c \<noteq> key \<Longrightarrow> Data (set_data env d c a s) key = Data s key"
  by (simp add: set_data_def Let_def)

lemma exec_line_hard:
  assumes "0 < d" "UserSet s key = Some True" "exec_line env d line s = Continue s'"
  shows "Data s' key = Data s key \<and> UserSet s' key = Some True"
  using exec_line_frame [OF assms(3)] assms(1,2) set_data_hard [of d s key env]
  by (auto split: if_splits)

lemma exec_line_marker:
  assumes "UserSet s key = Some True" "exec_line env d line s = Continue s'"
  shows "UserSet s' key = Some True"
  using exec_line_frame [OF assms(2)] assms(1) set_data_marker [of s key env d]
  by (auto split: if_splits)

lemma exec_line_api:
  assumes "0 < d" "Api s \<noteq> InvalidUrl" "exec_line env d line s = Continue s'"
  shows "Api s' = Api s"
  using exec_line_frame [OF assms(3)] assms(1,2) set_data_api [of env d]
  by (auto split: if_splits)

lemma take2_drop2: "length c > 2 \<Longrightarrow> take 2 c = p \<Longrightarrow> c = p @ drop 2 c"
  by (metis append_take_drop_id)

lemma exec_line_other_key:
  assumes "command_of line \<noteq> ''!:'' @ key" "exec_line env d line s = Continue s'"
  shows "Data s' key = Data s key"
proof -
  have "drop 2 (command_of line) \<noteq> key"
    if "length (command_of line) > 2" "take 2 (command_of line) = ''!:''"
    using take2_drop2 [OF that] assms(1) by auto
  then show ?thesis
    using exec_line_frame [OF assms(2)] set_data_other [of "command_of line" key env d]
    by (auto split: if_splits)
qed

section \<open>Properties of Load\<close>

lemma Load_loop_Nil: "Load_loop env fuel name lineno [] depth s = Some (Inr s)"
  by (simp add: Load_loop.simps)

lemma Load_loop_Cons:
  "lines \<noteq> [] \<Longrightarrow> Load_loop env fuel name lineno lines depth s =
     (case cut lines LF of (line, lines', _) \<Rightarrow>
        (case exec_line env depth line s of
           Continue s' \<Rightarrow> Load_loop env fuel name (lineno + 1) lines' depth s'
         | Break \<Rightarrow> Some (Inr s)
         | Return err \<Rightarrow> Some (Inl (Located name lineno err))
         | CallLoadProfile profile \<Rightarrow>
             (case LoadProfile env fuel profile depth s of
                None \<Rightarrow> None
              | Some (Inl err) \<Rightarrow> Some (Inl (Located name lineno err))
              | Some (Inr s') \<Rightarrow> Load_loop env fuel name (lineno + 1) lines' depth s')))"
  by (subst Load_loop.simps) simp

lemma LoadProfile_Suc:
  "LoadProfile env (Suc fuel) profile depth s =
     (case profile_body env profile of
        Inl err \<Rightarrow> Some (Inl err)
      | Inr body \<Rightarrow> Load_loop env fuel profile 1 body (depth + 1) (s\<lparr>Profile := profile\<rparr>))"
  by (subst LoadProfile.simps) (simp split: sum.splits)

text \<open>
  An invariant of the state is kept by \<^verbatim>\<open>Load\<close> and \<^verbatim>\<open>LoadProfile\<close> when every
  line keeps it.  The condition \<open>Q\<close> on the nesting depth and the text that is
  still to be read restricts the lines that have to be considered.
\<close>

lemma Load_invariant:
  fixes I :: "ChatState \<Rightarrow> bool" and Q :: "nat \<Rightarrow> string \<Rightarrow> bool"
  assumes Qcut: "\<And>d lines line rest ok.
        Q d lines \<Longrightarrow> lines \<noteq> [] \<Longrightarrow> cut lines LF = (line, rest, ok) \<Longrightarrow> Q d rest"
    and step: "\<And>d lines line rest ok s s'.
        Q d lines \<Longrightarrow> lines \<noteq> [] \<Longrightarrow> cut lines LF = (line, rest, ok) \<Longrightarrow>
        I s \<Longrightarrow> exec_line env d line s = Continue s' \<Longrightarrow> I s'"
    and call: "\<And>d lines line rest ok s p body.
        Q d lines \<Longrightarrow> lines \<noteq> [] \<Longrightarrow> cut lines LF = (line, rest, ok) \<Longrightarrow>
        exec_line env d line s = CallLoadProfile p \<Longrightarrow> profile_body env p = Inr body \<Longrightarrow>
        Q (d + 1) body"
    and prof: "\<And>s p. I s \<Longrightarrow> I (s\<lparr>Profile := p\<rparr>)"
  shows "Q depth lines \<Longrightarrow> I s \<Longrightarrow>
      Load_loop env fuel name lineno lines depth s = Some (Inr s') \<Longrightarrow> I s'"
    and "(\<And>body. profile_body env profile = Inr body \<Longrightarrow> Q (depth + 1) body) \<Longrightarrow> I s \<Longrightarrow>
      LoadProfile env fuel profile depth s = Some (Inr s') \<Longrightarrow> I s'"
  using Qcut step call prof
proof (induction env fuel name lineno lines depth s and env fuel profile depth s
    arbitrary: s' and s' rule: Load_loop_LoadProfile.induct)
  case (1 env fuel name lineno lines depth s)
  note Qcut = "1.prems"(4) and step = "1.prems"(5) and call = "1.prems"(6) and prof = "1.prems"(7)
  note A = Qcut step call prof
  show ?case
  proof (cases "lines = []")
    case True
    with "1.prems"(2,3) show ?thesis by (simp add: Load_loop.simps)
  next
    case False
    obtain line rest ok where c: "cut lines LF = (line, rest, ok)"
      by (cases "cut lines LF") auto
    have Qrest: "Q depth rest" using Qcut [OF "1.prems"(1) False c] .
    have pos: "0 < length lines" using False by simp
    have eq: "(line, rest, ok) = cut lines LF" "(rest, ok) = (rest, ok)" using c by simp_all
    show ?thesis
    proof (cases "exec_line env depth line s")
      case (Continue s1)
      have "I s1" using step [OF "1.prems"(1) False c "1.prems"(2) Continue] .
      moreover have "Load_loop env fuel name (lineno + 1) rest depth s1 = Some (Inr s')"
        using "1.prems"(3) False c Continue by (subst (asm) Load_loop.simps) simp
      ultimately show ?thesis
        by (rule "1.IH"(1) [OF pos eq Continue Qrest _ _ A])
    next
      case Break
      with "1.prems"(2,3) False c show ?thesis by (subst (asm) Load_loop.simps) simp
    next
      case (Return err)
      with "1.prems"(3) False c show ?thesis by (subst (asm) Load_loop.simps) simp
    next
      case (CallLoadProfile p)
      from "1.prems"(3) False c CallLoadProfile
      obtain s1 where lp: "LoadProfile env fuel p depth s = Some (Inr s1)"
        and rest: "Load_loop env fuel name (lineno + 1) rest depth s1 = Some (Inr s')"
        by (subst (asm) Load_loop.simps) (simp split: option.splits sum.splits)
      have Qb: "\<And>body. profile_body env p = Inr body \<Longrightarrow> Q (depth + 1) body"
        using call [OF "1.prems"(1) False c CallLoadProfile] .
      have "I s1"
        by (rule "1.IH"(2) [OF pos eq CallLoadProfile Qb "1.prems"(2) lp A])
      then show ?thesis
        by (rule "1.IH"(3) [OF pos eq CallLoadProfile lp refl Qrest _ rest A])
    qed
  qed
next
  case (2 env fuel profile depth s)
  note A = "2.prems"(4-7)
  note prof = "2.prems"(7)
  from "2.prems"(3) obtain body fuel' where b: "profile_body env profile = Inr body"
    and f: "fuel = Suc fuel'"
    and l: "Load_loop env fuel' profile 1 body (depth + 1) (s\<lparr>Profile := profile\<rparr>) = Some (Inr s')"
    by (subst (asm) LoadProfile.simps) (simp split: sum.splits nat.splits)
  show ?case
    using "2.IH" [OF b f "2.prems"(1) [OF b] prof [OF "2.prems"(2)] l A] .
qed

lemma Load_hard:
  assumes "UserSet s key = Some True"
  shows "0 < depth \<Longrightarrow> Load_loop env fuel name lineno lines depth s = Some (Inr s') \<Longrightarrow>
           Data s' key = Data s key \<and> UserSet s' key = Some True"
    and "LoadProfile env fuel profile depth s = Some (Inr s') \<Longrightarrow>
           Data s' key = Data s key \<and> UserSet s' key = Some True"
proof -
  let ?I = "\<lambda>t. Data t key = Data s key \<and> UserSet t key = Some True"
  let ?Q = "\<lambda>d (lines :: string). 0 < d"
  have step: "?I t'" if "0 < d" "?I t" "exec_line env d line t = Continue t'" for d line t t'
    using exec_line_hard [OF that(1) _ that(3), of key] that(2) by simp
  have I0: "?I s" using assms by simp
  {
    assume d: "0 < depth" and L: "Load_loop env fuel name lineno lines depth s = Some (Inr s')"
    show "Data s' key = Data s key \<and> UserSet s' key = Some True"
    proof (rule Load_invariant(1) [where I = ?I and Q = ?Q and env = env, OF _ _ _ _ d I0 L], goal_cases)
      case 1 then show ?case by simp
    next
      case (2 d lines line rest ok t t')
      from step [OF 2(1) 2(4) 2(5)] show ?case .
    next
      case 3 show ?case by simp
    next
      case 4 then show ?case by simp
    qed
  }
  {
    assume L: "LoadProfile env fuel profile depth s = Some (Inr s')"
    show "Data s' key = Data s key \<and> UserSet s' key = Some True"
    proof (rule Load_invariant(2) [where I = ?I and Q = ?Q and env = env, OF _ _ _ _ _ I0 L], goal_cases)
      case 1 then show ?case by simp
    next
      case (2 d lines line rest ok t t')
      from step [OF 2(1) 2(4) 2(5)] show ?case .
    next
      case 3 show ?case by simp
    next
      case 4 then show ?case by simp
    next
      case 5 show ?case by simp
    qed
  }
qed

lemma Load_marker:
  assumes "UserSet s key = Some True"
  shows "Load_loop env fuel name lineno lines depth s = Some (Inr s') \<Longrightarrow> UserSet s' key = Some True"
proof -
  let ?I = "\<lambda>t. UserSet t key = Some True"
  let ?Q = "\<lambda>(d :: nat) (lines :: string). True"
  assume L: "Load_loop env fuel name lineno lines depth s = Some (Inr s')"
  show "UserSet s' key = Some True"
  proof (rule Load_invariant(1) [where I = ?I and Q = ?Q and env = env, OF _ _ _ _ _ assms L], goal_cases)
    case 1 show ?case ..
  next
    case (2 d lines line rest ok t t')
    from exec_line_marker [OF 2(4) 2(5)] show ?case .
  next
    case 3 show ?case ..
  next
    case 4 then show ?case by simp
  next
    case 5 show ?case ..
  qed
qed

lemma Load_api:
  assumes "Api s \<noteq> InvalidUrl"
  shows "0 < depth \<Longrightarrow> Load_loop env fuel name lineno lines depth s = Some (Inr s') \<Longrightarrow>
           Api s' = Api s"
    and "LoadProfile env fuel profile depth s = Some (Inr s') \<Longrightarrow> Api s' = Api s"
proof -
  let ?I = "\<lambda>t. Api t = Api s"
  let ?Q = "\<lambda>d (lines :: string). 0 < d"
  have step: "?I t'" if "0 < d" "?I t" "exec_line env d line t = Continue t'" for d line t t'
    using exec_line_api [OF that(1) _ that(3)] that(2) assms by simp
  have I0: "?I s" by simp
  {
    assume d: "0 < depth" and L: "Load_loop env fuel name lineno lines depth s = Some (Inr s')"
    show "Api s' = Api s"
    proof (rule Load_invariant(1) [where I = ?I and Q = ?Q and env = env, OF _ _ _ _ d I0 L], goal_cases)
      case 1 then show ?case by simp
    next
      case (2 d lines line rest ok t t')
      from step [OF 2(1) 2(4) 2(5)] show ?case .
    next
      case 3 show ?case by simp
    next
      case 4 then show ?case by simp
    qed
  }
  {
    assume L: "LoadProfile env fuel profile depth s = Some (Inr s')"
    show "Api s' = Api s"
    proof (rule Load_invariant(2) [where I = ?I and Q = ?Q and env = env, OF _ _ _ _ _ I0 L], goal_cases)
      case 1 then show ?case by simp
    next
      case (2 d lines line rest ok t t')
      from step [OF 2(1) 2(4) 2(5)] show ?case .
    next
      case 3 show ?case by simp
    next
      case 4 then show ?case by simp
    next
      case 5 show ?case by simp
    qed
  }
qed

lemma lines_of_cut:
  "lines \<noteq> [] \<Longrightarrow> cut lines LF = (line, rest, ok) \<Longrightarrow> lines_of lines = line # lines_of rest"
  by (subst lines_of.simps) simp

lemma sets_key_cut:
  "lines \<noteq> [] \<Longrightarrow> cut lines LF = (line, rest, ok) \<Longrightarrow>
   sets_key key lines = (command_of line = ''!:'' @ key \<or> sets_key key rest)"
  by (simp add: sets_key_def lines_of_cut)

lemma included_cut:
  "lines \<noteq> [] \<Longrightarrow> cut lines LF = (line, rest, ok) \<Longrightarrow>
   set (included lines) =
     (if command_of line = ''!profile'' then {TrimSpace (args_of line)} else {}) \<union> set (included rest)"
  by (simp add: included_def lines_of_cut)

lemma Load_top:
  assumes "UserSet s key = Some True" and "\<not> sets_key key lines"
    and L: "Load_loop env fuel name lineno lines 0 s = Some (Inr s')"
  shows "Data s' key = Data s key \<and> UserSet s' key = Some True"
proof -
  let ?I = "\<lambda>t. Data t key = Data s key \<and> UserSet t key = Some True"
  let ?Q = "\<lambda>(d :: nat) lines. d = 0 \<longrightarrow> \<not> sets_key key lines"
  have I0: "?I s" using assms(1) by simp
  have Q0: "?Q 0 lines" using assms(2) by simp
  show ?thesis
  proof (rule Load_invariant(1) [where I = ?I and Q = ?Q and env = env, OF _ _ _ _ Q0 I0 L], goal_cases)
    case (1 d lines line rest ok)
    then show ?case using sets_key_cut [OF 1(2) 1(3)] by simp
  next
    case (2 d lines line rest ok t t')
    show ?case
    proof (cases "d = 0")
      case True
      with 2(1) sets_key_cut [OF 2(2) 2(3)] have "command_of line \<noteq> ''!:'' @ key" by simp
      from exec_line_other_key [OF this 2(5)] exec_line_marker [OF _ 2(5), of key] 2(4)
      show ?thesis by simp
    next
      case False
      then have "0 < d" by simp
      from exec_line_hard [OF this _ 2(5), of key] 2(4) show ?thesis by simp
    qed
  next
    case 3 show ?case by simp
  next
    case 4 then show ?case by simp
  qed
qed

lemma if_neq: "((if c then a else b) \<noteq> x) = ((c \<longrightarrow> a \<noteq> x) \<and> (\<not> c \<longrightarrow> b \<noteq> x))"
  by simp

lemma embed_neq: "embed r s \<noteq> CallLoadProfile p"
  by (simp add: embed_def split: sum.split)

lemma directive_call:
  assumes "directive env d line s = CallLoadProfile p"
  shows "command_of line = ''!profile'' \<and> p = TrimSpace (args_of line)"
proof -
  obtain command args ok where c: "cut line CHR '' '' = (command, args, ok)"
    by (cases "cut line CHR '' ''") auto
  have "directive env d line s \<noteq> CallLoadProfile p" if "HasPrefix line ''!!''"
    using that c by (simp add: directive_def split del: if_split)
  moreover have "directive env d line s \<noteq> CallLoadProfile p"
    if "\<not> HasPrefix line ''!!''" "command \<noteq> ''!profile''"
    using that c by (simp add: directive_def if_neq embed_neq split del: if_split)
  moreover have "directive env d line s = CallLoadProfile (TrimSpace args)"
    if "\<not> HasPrefix line ''!!''" "command = ''!profile''"
    using that c by (simp add: directive_def split del: if_split)
  ultimately show ?thesis
    using assms c by (auto simp: command_of_def args_of_def)
qed

lemma exec_line_call:
  "exec_line env d line s = CallLoadProfile p \<Longrightarrow>
   command_of line = ''!profile'' \<and> p = TrimSpace (args_of line)"
  using directive_call [of env d line s p]
  by (simp add: exec_line_def split: option.splits)

lemma Load_quiet:
  assumes closed: "\<And>p body. p \<in> P \<Longrightarrow> profile_body env p = Inr body \<Longrightarrow>
      \<not> sets_key key body \<and> set (included body) \<subseteq> P"
  shows "\<not> sets_key key lines \<Longrightarrow> set (included lines) \<subseteq> P \<Longrightarrow>
      Load_loop env fuel name lineno lines depth s = Some (Inr s') \<Longrightarrow> Data s' key = Data s key"
    and "profile \<in> P \<Longrightarrow> LoadProfile env fuel profile depth s = Some (Inr s') \<Longrightarrow>
      Data s' key = Data s key"
proof -
  let ?I = "\<lambda>t. Data t key = Data s key"
  let ?Q = "\<lambda>(d :: nat) lines. \<not> sets_key key lines \<and> set (included lines) \<subseteq> P"
  have I0: "?I s" by simp
  have Qcut: "?Q d rest" if "?Q d lines" "lines \<noteq> []" "cut lines LF = (line, rest, ok)"
    for d lines line rest ok
    using that(1) sets_key_cut [OF that(2,3)] included_cut [OF that(2,3)] by auto
  have step: "?I t'"
    if "?Q d lines" "lines \<noteq> []" "cut lines LF = (line, rest, ok)" "?I t"
      "exec_line env d line t = Continue t'" for d lines line rest ok t t'
  proof -
    from that(1) sets_key_cut [OF that(2,3)] have "command_of line \<noteq> ''!:'' @ key" by simp
    from exec_line_other_key [OF this that(5)] that(4) show ?thesis by simp
  qed
  have call: "?Q (d + 1) body"
    if "?Q d lines" "lines \<noteq> []" "cut lines LF = (line, rest, ok)"
      "exec_line env d line t = CallLoadProfile p" "profile_body env p = Inr body"
    for d lines line rest ok t p body
  proof -
    from exec_line_call [OF that(4)] that(1) included_cut [OF that(2,3)] have "p \<in> P" by auto
    from closed [OF this that(5)] show ?thesis .
  qed
  {
    assume a: "\<not> sets_key key lines" "set (included lines) \<subseteq> P"
      and L: "Load_loop env fuel name lineno lines depth s = Some (Inr s')"
    from a have Q0: "?Q depth lines" by simp
    show "Data s' key = Data s key"
    proof (rule Load_invariant(1) [where I = ?I and Q = ?Q and env = env, OF _ _ _ _ Q0 I0 L], goal_cases)
      case (1 d lines line rest ok)
      from Qcut [OF 1] show ?case .
    next
      case (2 d lines line rest ok t t')
      from step [OF 2] show ?case .
    next
      case (3 d lines line rest ok t p body)
      from call [OF 3] show ?case .
    next
      case 4 then show ?case by simp
    qed
  }
  {
    assume a: "profile \<in> P" and L: "LoadProfile env fuel profile depth s = Some (Inr s')"
    show "Data s' key = Data s key"
    proof (rule Load_invariant(2) [where I = ?I and Q = ?Q and env = env, OF _ _ _ _ _ I0 L], goal_cases)
      case (1 d lines line rest ok)
      from Qcut [OF 1] show ?case .
    next
      case (2 d lines line rest ok t t')
      from step [OF 2] show ?case .
    next
      case (3 d lines line rest ok t p body)
      from call [OF 3] show ?case .
    next
      case 4 then show ?case by simp
    next
      case (5 body)
      from closed [OF a 5] show ?case .
    qed
  }
qed

section \<open>Single directives and the assembler\<close>

lemma not_escaped:
  assumes "command_of line = c # x # rest" and "x \<noteq> CHR ''!''"
  shows "\<not> HasPrefix line ''!!''"
proof -
  obtain command args ok where cu: "cut line CHR '' '' = (command, args, ok)"
    by (cases "cut line CHR '' ''") auto
  with assms(1) have "command = c # x # rest" by (simp add: command_of_def)
  with cut_eq [OF cu] obtain tail where "line = c # x # tail" by auto
  with assms(2) show ?thesis by (simp add: HasPrefix_def)
qed

lemma exec_line_data:
  assumes "exclude_step line s = None" and "command_of line = ''!:'' @ key" and "key \<noteq> []"
  shows "exec_line env d line s = Continue (set_data env d (''!:'' @ key) (args_of line) s)"
proof -
  obtain command args ok where cu: "cut line CHR '' '' = (command, args, ok)"
    by (cases "cut line CHR '' ''") auto
  with assms(2) have c: "command = ''!:'' @ key" by (simp add: command_of_def)
  have e: "\<not> HasPrefix line ''!!''"
    using not_escaped [of line "CHR ''!''" "CHR '':''" key] assms(2) by simp
  have "directive env d line s = Continue (set_data env d (''!:'' @ key) args s)"
    using cu c e assms(3) by (simp add: directive_def split del: if_split)
  with assms(1) cu show ?thesis
    by (simp add: exec_line_def args_of_def)
qed

lemma exec_line_api_eq:
  assumes "exclude_step line s = None" and "command_of line = ''!api''"
  shows "exec_line env d line s =
    Continue (if Api s = InvalidUrl \<or> d = 0 then s\<lparr>Api := TrimSpace (args_of line)\<rparr> else s)"
proof -
  obtain command args ok where cu: "cut line CHR '' '' = (command, args, ok)"
    by (cases "cut line CHR '' ''") auto
  with assms(2) have c: "command = ''!api''" by (simp add: command_of_def)
  have e: "\<not> HasPrefix line ''!!''"
    using not_escaped [of line "CHR ''!''" "CHR ''a''" "''pi''"] assms(2) by simp
  have "directive env d line s =
      Continue (if Api s = InvalidUrl \<or> d = 0 then s\<lparr>Api := TrimSpace args\<rparr> else s)"
    using cu c e by (simp add: directive_def split del: if_split)
  with assms(1) cu show ?thesis
    by (simp add: exec_line_def args_of_def)
qed

lemma set_data_value:
  assumes "d = 0 \<or> UserSet s key \<noteq> Some True"
  shows "Data (set_data env d (''!:'' @ key) a s) key =
      (if TrimSpace a = [] then None
       else Some (case json_value env (TrimSpace a) of None \<Rightarrow> JStr (TrimSpace a) | Some v \<Rightarrow> v))
    \<and> UserSet (set_data env d (''!:'' @ key) a s) key = Some (d = 0)"
  using assms by (auto simp add: set_data_def Let_def)

lemma New_empty: "(fst (New r b) = []) = (Messages b = [] \<and> Trim (Content b) [CR, LF] = [])"
  by (simp add: New_def Let_def)

lemma switch_type_chat:
  "Type s = TypeChat \<Longrightarrow>
   switch_type env strict api s =
     Inr (if strict then api else api @ ''chat/completions'',
          s\<lparr>Builder := snd (New [] (Builder s)),
            Data := (Data s)(''messages'' \<mapsto> JMessages (fst (New [] (Builder s))))\<rparr>)"
  by (simp add: switch_type_def Let_def split: prod.split)

lemma switch_type_empty:
  assumes "Type s \<noteq> TypeChat" and "fst (New [] (Builder s)) = []"
  shows "switch_type env strict api s = Inl (IndexOutOfRange 0 0)"
proof -
  from assms(2) obtain b where n: "New [] (Builder s) = ([], b)"
    by (cases "New [] (Builder s)") auto
  then have n': "New [] (Builder (s\<lparr>Data := m\<rparr>)) = ([], b)" for m
    by simp
  from assms(1) show ?thesis
    by (cases "Type s") (simp_all add: switch_type_def n n')
qed

lemma switch_type_nonempty:
  "fst (New [] (Builder s)) \<noteq> [] \<Longrightarrow> switch_type env strict api s \<noteq> Inl (IndexOutOfRange 0 0)"
  by (cases "Type s")
    (auto simp add: switch_type_def Let_def split: prod.split list.split sum.split)

lemma switch_type_other_key:
  assumes "switch_type env strict api s = Inr (api', s')"
    and "key \<notin> {''messages'', ''prompt'', ''input_prefix'', ''input_suffix''}"
  shows "Data s' key = Data s key"
  using assms
  by (cases "Type s")
    (auto simp add: switch_type_def Let_def split: prod.splits list.splits sum.splits if_splits)

lemma assemble_other_key:
  assumes "assemble env s = Inr (api, s')"
    and "key \<notin> {''messages'', ''prompt'', ''input_prefix'', ''input_suffix'', ''stream''}"
  shows "Data s' key = Data s key"
proof -
  from assms(1) obtain strict a api1 s1 where sw: "switch_type env strict a s = Inr (api1, s1)"
    and s': "s' = s1\<lparr>Data := (Data s1)(''stream'' \<mapsto> JBool True)\<rparr>"
    by (auto simp add: assemble_def Let_def split: sum.splits prod.splits)
  from switch_type_other_key [OF sw, of key] assms(2) s' show ?thesis by simp
qed

text \<open>Rules for running the model on a given document.\<close>

lemmas run_simps =
  Load_def Load_loop_Nil Load_loop_Cons LoadProfile_Suc exec_line_def exclude_step_def
  directive_def set_data_def set_header_def embed_def HasPrefix_def New_def Append_def Trim_def
  TrimSpace_def space1_def space2_def space3_def tagmatch_def
  NewChatState_def Builder0_def LF_def CR_def InvalidUrl_def Let_def
  DefaultProfile_def default_profile_def profile_body_def Profiles_def Profiles_table_def
  ContainsAny_def bare_env_def

lemmas assemble_simps =
  assemble_def switch_type_def interpolate_def interpolate_loop.simps HasSuffix_def
  New_def Trim_def CR_def LF_def Let_def

section \<open>The claims about the interpreter and the assembler\<close>

text \<open>
  Claim C1.  A key is hard-set when its marker in \<open>UserSet\<close> is true.
  \<^item> A \<^verbatim>\<open>!:key\<close> directive that is processed at depth 0 stores (or deletes) the
    value and hard-sets the key; at a depth above 0 it does the same for a key
    that is not hard-set, and leaves the marker false: such a key stays
    overridable.
  \<^item> \<^verbatim>\<open>Load\<close> at a depth above 0 and \<^verbatim>\<open>LoadProfile\<close> called at any depth (its text
    is read one level deeper), with all the profiles they include in turn, leave
    the value of a hard-set key and its marker as they are.
  \<^item> \<^verbatim>\<open>Load\<close> at depth 0 of a text without a \<^verbatim>\<open>!:key\<close> line for that key leaves
    them as they are, whatever profiles the text includes.
\<close>

theorem override_invariant:
  "(exclude_step line s = None \<and> command_of line = ''!:'' @ key \<and> key \<noteq> [] \<and>
      (depth = 0 \<or> UserSet s key \<noteq> Some True) \<longrightarrow>
      (\<exists>s'. exec_line env depth line s = Continue s' \<and>
            Data s' key =
              (if TrimSpace (args_of line) = [] then None
               else Some (case json_value env (TrimSpace (args_of line)) of
                            None \<Rightarrow> JStr (TrimSpace (args_of line)) | Some v \<Rightarrow> v)) \<and>
            UserSet s' key = Some (depth = 0)))
   \<and> (0 < depth \<and> UserSet s key = Some True \<and>
        Load env fuel name doc depth s = Some (Inr s1) \<longrightarrow>
        Data s1 key = Data s key \<and> UserSet s1 key = Some True)
   \<and> (UserSet s key = Some True \<and> LoadProfile env fuel profile depth s = Some (Inr s2) \<longrightarrow>
        Data s2 key = Data s key \<and> UserSet s2 key = Some True)
   \<and> (UserSet s key = Some True \<and> \<not> sets_key key doc \<and>
        Load env fuel name doc 0 s = Some (Inr s3) \<longrightarrow>
        Data s3 key = Data s key \<and> UserSet s3 key = Some True)"
proof -
  have A: "exclude_step line s = None \<and> command_of line = ''!:'' @ key \<and> key \<noteq> [] \<and>
      (depth = 0 \<or> UserSet s key \<noteq> Some True) \<longrightarrow>
      (\<exists>s'. exec_line env depth line s = Continue s' \<and>
            Data s' key =
              (if TrimSpace (args_of line) = [] then None
               else Some (case json_value env (TrimSpace (args_of line)) of
                            None \<Rightarrow> JStr (TrimSpace (args_of line)) | Some v \<Rightarrow> v)) \<and>
            UserSet s' key = Some (depth = 0))"
  proof
    assume a: "exclude_step line s = None \<and> command_of line = ''!:'' @ key \<and> key \<noteq> [] \<and>
      (depth = 0 \<or> UserSet s key \<noteq> Some True)"
    then have "exec_line env depth line s =
        Continue (set_data env depth (''!:'' @ key) (args_of line) s)"
      using exec_line_data [of line s key env depth] by blast
    moreover from a have "depth = 0 \<or> UserSet s key \<noteq> Some True" by blast
    from set_data_value [OF this, of env "args_of line"]
    have "Data (set_data env depth (''!:'' @ key) (args_of line) s) key =
        (if TrimSpace (args_of line) = [] then None
         else Some (case json_value env (TrimSpace (args_of line)) of
                      None \<Rightarrow> JStr (TrimSpace (args_of line)) | Some v \<Rightarrow> v)) \<and>
        UserSet (set_data env depth (''!:'' @ key) (args_of line) s) key = Some (depth = 0)" .
    ultimately show "\<exists>s'. exec_line env depth line s = Continue s' \<and>
            Data s' key =
              (if TrimSpace (args_of line) = [] then None
               else Some (case json_value env (TrimSpace (args_of line)) of
                            None \<Rightarrow> JStr (TrimSpace (args_of line)) | Some v \<Rightarrow> v)) \<and>
            UserSet s' key = Some (depth = 0)"
      by blast
  qed
  have B: "0 < depth \<and> UserSet s key = Some True \<and>
        Load env fuel name doc depth s = Some (Inr s1) \<longrightarrow>
        Data s1 key = Data s key \<and> UserSet s1 key = Some True"
    using Load_hard(1) [of s key depth env fuel name 1 doc s1] by (simp add: Load_def)
  have C: "UserSet s key = Some True \<and> LoadProfile env fuel profile depth s = Some (Inr s2) \<longrightarrow>
        Data s2 key = Data s key \<and> UserSet s2 key = Some True"
    using Load_hard(2) [of s key env fuel profile depth s2] by simp
  have D: "UserSet s key = Some True \<and> \<not> sets_key key doc \<and>
        Load env fuel name doc 0 s = Some (Inr s3) \<longrightarrow>
        Data s3 key = Data s key \<and> UserSet s3 key = Some True"
    using Load_top [of s key doc env fuel name 1 s3] by (simp add: Load_def)
  from A B C D show ?thesis
    by (intro conjI) assumption+
qed

theorem override_invariant_witness:
  "exec_line bare_env 0 ''!:max_tokens 7'' NewChatState = Continue hard7
   \<and> Data hard7 ''max_tokens'' = Some (JStr ''7'') \<and> UserSet hard7 ''max_tokens'' = Some True
   \<and> (\<exists>s1. Load bare_env 0 ''p'' ''!:max_tokens 9\<newline>'' 1 hard7 = Some (Inr s1)
          \<and> Data s1 ''max_tokens'' = Some (JStr ''7''))
   \<and> (\<exists>s2. LoadProfile bare_env 1 ''openai'' 0 hard7 = Some (Inr s2)
          \<and> Data s2 ''max_tokens'' = Some (JStr ''7''))
   \<and> (\<exists>s3. Load bare_env 1 ''<stdin>'' ''!profile openai\<newline>'' 0 hard7 = Some (Inr s3)
          \<and> Data s3 ''max_tokens'' = Some (JStr ''7''))"
proof -
  let ?k = "''max_tokens''"
  have h0: "exclude_step ''!:max_tokens 7'' NewChatState = None \<and>
      command_of ''!:max_tokens 7'' = ''!:'' @ ?k \<and> ?k \<noteq> [] \<and>
      ((0::nat) = 0 \<or> UserSet NewChatState ?k \<noteq> Some True)"
    by (simp add: exclude_step_def command_of_def NewChatState_def)
  have e: "exec_line bare_env 0 ''!:max_tokens 7'' NewChatState = Continue hard7"
    by (simp add: hard7_def exec_line_def exclude_step_def directive_def HasPrefix_def
        NewChatState_def)
  have v: "Data hard7 ?k = Some (JStr ''7'') \<and> UserSet hard7 ?k = Some True"
    using override_invariant [where line = "''!:max_tokens 7''" and s = NewChatState and key = ?k
          and depth = 0 and env = bare_env, THEN conjunct1] h0 e
    by (simp add: args_of_def TrimSpace_def space1_def space2_def space3_def bare_env_def)
  have m: "UserSet hard7 ?k = Some True" using v by simp
  have x1: "\<exists>s1. Load bare_env 0 ''p'' ''!:max_tokens 9\<newline>'' 1 hard7 = Some (Inr s1)"
    by (simp add: hard7_def run_simps)
  then obtain s1 where s1: "Load bare_env 0 ''p'' ''!:max_tokens 9\<newline>'' 1 hard7 = Some (Inr s1)" ..
  have c1: "Data s1 ?k = Some (JStr ''7'')"
    using override_invariant [where s = hard7 and key = ?k and depth = 1 and env = bare_env
          and fuel = 0 and name = "''p''" and doc = "''!:max_tokens 9\<newline>''" and ?s1.0 = s1,
        THEN conjunct2, THEN conjunct1] m s1 v
    by simp
  have x2: "\<exists>s2. LoadProfile bare_env 1 ''openai'' 0 hard7 = Some (Inr s2)"
    by (simp add: hard7_def run_simps)
  then obtain s2 where s2: "LoadProfile bare_env 1 ''openai'' 0 hard7 = Some (Inr s2)" ..
  have c2: "Data s2 ?k = Some (JStr ''7'')"
    using override_invariant [where s = hard7 and key = ?k and depth = 0 and env = bare_env
          and fuel = 1 and profile = "''openai''" and ?s2.0 = s2,
        THEN conjunct2, THEN conjunct2, THEN conjunct1] m s2 v
    by simp
  have q: "\<not> sets_key ?k ''!profile openai\<newline>''"
    by (simp add: sets_key_def lines_of.simps command_of_def LF_def)
  have x3: "\<exists>s3. Load bare_env 1 ''<stdin>'' ''!profile openai\<newline>'' 0 hard7 = Some (Inr s3)"
    by (simp add: hard7_def run_simps)
  then obtain s3 where s3: "Load bare_env 1 ''<stdin>'' ''!profile openai\<newline>'' 0 hard7 = Some (Inr s3)" ..
  have c3: "Data s3 ?k = Some (JStr ''7'')"
    using override_invariant [where s = hard7 and key = ?k and env = bare_env
          and fuel = 1 and name = "''<stdin>''" and doc = "''!profile openai\<newline>''" and ?s3.0 = s3,
        THEN conjunct2, THEN conjunct2, THEN conjunct2] m q s3 v
    by simp
  from e v s1 c1 s2 c2 s3 c3 show ?thesis
    by blast
qed

text \<open>
  Claim C6.  An \<^verbatim>\<open>!api\<close> directive that is processed stores its trimmed argument as
  the base URL if the URL is still the sentinel or the depth is 0, and otherwise
  changes nothing; no other line changes the URL.  So \<^verbatim>\<open>Load\<close> at a depth above 0
  and \<^verbatim>\<open>LoadProfile\<close>, with all that they include, keep a URL that is not the
  sentinel: among profiles the first \<^verbatim>\<open>!api\<close> stays.
\<close>

theorem api_precedence:
  "(exclude_step line s = None \<and> command_of line = ''!api'' \<longrightarrow>
      exec_line env depth line s =
        Continue (if Api s = InvalidUrl \<or> depth = 0
                  then s\<lparr>Api := TrimSpace (args_of line)\<rparr> else s))
   \<and> (exec_line env depth line s = Continue s' \<and> command_of line \<noteq> ''!api'' \<longrightarrow>
        Api s' = Api s)
   \<and> (0 < depth \<and> Api s \<noteq> InvalidUrl \<and>
        Load env fuel name doc depth s = Some (Inr s1) \<longrightarrow> Api s1 = Api s)
   \<and> (Api s \<noteq> InvalidUrl \<and> LoadProfile env fuel profile depth s = Some (Inr s2) \<longrightarrow>
        Api s2 = Api s)"
proof -
  have A: "exclude_step line s = None \<and> command_of line = ''!api'' \<longrightarrow>
      exec_line env depth line s =
        Continue (if Api s = InvalidUrl \<or> depth = 0
                  then s\<lparr>Api := TrimSpace (args_of line)\<rparr> else s)"
    using exec_line_api_eq [of line s env depth] by blast
  have B: "exec_line env depth line s = Continue s' \<and> command_of line \<noteq> ''!api'' \<longrightarrow>
      Api s' = Api s"
  proof
    assume a: "exec_line env depth line s = Continue s' \<and> command_of line \<noteq> ''!api''"
    then have "exec_line env depth line s = Continue s'" ..
    from exec_line_frame [OF this] a show "Api s' = Api s"
      by (auto simp: set_data_api)
  qed
  have C: "0 < depth \<and> Api s \<noteq> InvalidUrl \<and>
      Load env fuel name doc depth s = Some (Inr s1) \<longrightarrow> Api s1 = Api s"
    using Load_api(1) [of s depth env fuel name 1 doc s1] by (simp add: Load_def)
  have D: "Api s \<noteq> InvalidUrl \<and> LoadProfile env fuel profile depth s = Some (Inr s2) \<longrightarrow>
      Api s2 = Api s"
    using Load_api(2) [of s env fuel profile depth s2] by simp
  from A B C D show ?thesis
    by (intro conjI) assumption+
qed

theorem api_precedence_witness:
  "exec_line bare_env 3 ''!api http://a/'' NewChatState =
     Continue (NewChatState\<lparr>Api := ''http://a/''\<rparr>)
   \<and> exec_line bare_env 3 ''!api http://b/'' (NewChatState\<lparr>Api := ''http://a/''\<rparr>) =
       Continue (NewChatState\<lparr>Api := ''http://a/''\<rparr>)
   \<and> exec_line bare_env 0 ''!api http://b/'' (NewChatState\<lparr>Api := ''http://a/''\<rparr>) =
       Continue (NewChatState\<lparr>Api := ''http://b/''\<rparr>)
   \<and> Api (NewChatState\<lparr>Api := ''http://a/'', Debug := True\<rparr>) = ''http://a/''
   \<and> (\<exists>s1. Load bare_env 0 ''p'' ''!api http://b/\<newline>'' 1 (NewChatState\<lparr>Api := ''http://a/''\<rparr>)
          = Some (Inr s1) \<and> Api s1 = ''http://a/'')
   \<and> (\<exists>s2. LoadProfile bare_env 1 ''llama.cpp'' 0 (NewChatState\<lparr>Api := ''http://a/''\<rparr>)
          = Some (Inr s2) \<and> Api s2 = ''http://a/'')"
proof -
  let ?a = "NewChatState\<lparr>Api := ''http://a/''\<rparr>"
  have ex: "exclude_step l NewChatState = None" "exclude_step l ?a = None" for l
    by (simp_all add: exclude_step_def NewChatState_def)
  have co: "command_of ''!api http://a/'' = ''!api''" "command_of ''!api http://b/'' = ''!api''"
    "command_of ''!debug'' \<noteq> ''!api''"
    by (simp_all add: command_of_def)
  have ar: "TrimSpace (args_of ''!api http://a/'') = ''http://a/''"
    "TrimSpace (args_of ''!api http://b/'') = ''http://b/''"
    by (simp_all add: args_of_def TrimSpace_def space1_def space2_def space3_def)
  have ap: "Api NewChatState = InvalidUrl" "Api ?a \<noteq> InvalidUrl"
    by (simp_all add: NewChatState_def InvalidUrl_def)
  have c1: "exec_line bare_env 3 ''!api http://a/'' NewChatState = Continue ?a"
    using api_precedence [where line = "''!api http://a/''" and s = NewChatState and depth = 3
        and env = bare_env, THEN conjunct1] ex co ar ap by simp
  have c2: "exec_line bare_env 3 ''!api http://b/'' ?a = Continue ?a"
    using api_precedence [where line = "''!api http://b/''" and s = ?a and depth = 3
        and env = bare_env, THEN conjunct1] ex co ap by simp
  have c3: "exec_line bare_env 0 ''!api http://b/'' ?a = Continue (NewChatState\<lparr>Api := ''http://b/''\<rparr>)"
    using api_precedence [where line = "''!api http://b/''" and s = ?a and depth = 0
        and env = bare_env, THEN conjunct1] ex co ar by simp
  have d: "exec_line bare_env 2 ''!debug'' ?a = Continue (?a\<lparr>Debug := True\<rparr>)"
    by (simp add: run_simps)
  have c4: "Api (?a\<lparr>Debug := True\<rparr>) = ''http://a/''"
    using api_precedence [where line = "''!debug''" and s = ?a and depth = 2 and env = bare_env
        and s' = "?a\<lparr>Debug := True\<rparr>", THEN conjunct2, THEN conjunct1] d co(3) by simp
  have "\<exists>s1. Load bare_env 0 ''p'' ''!api http://b/\<newline>'' 1 ?a = Some (Inr s1)"
    by (simp add: run_simps)
  then obtain s1 where s1: "Load bare_env 0 ''p'' ''!api http://b/\<newline>'' 1 ?a = Some (Inr s1)" ..
  have c5: "Api s1 = ''http://a/''"
    using api_precedence [where s = ?a and depth = 1 and env = bare_env and fuel = 0
        and name = "''p''" and doc = "''!api http://b/\<newline>''" and ?s1.0 = s1,
        THEN conjunct2, THEN conjunct2, THEN conjunct1] ap(2) s1 by simp
  have "\<exists>s2. LoadProfile bare_env 1 ''llama.cpp'' 0 ?a = Some (Inr s2)"
    by (simp add: run_simps)
  then obtain s2 where s2: "LoadProfile bare_env 1 ''llama.cpp'' 0 ?a = Some (Inr s2)" ..
  have c6: "Api s2 = ''http://a/''"
    using api_precedence [where s = ?a and depth = 0 and env = bare_env and fuel = 1
        and profile = "''llama.cpp''" and ?s2.0 = s2,
        THEN conjunct2, THEN conjunct2, THEN conjunct2] ap(2) s2 by simp
  from c1 c2 c3 c4 s1 c5 s2 c6 show ?thesis
    by blast
qed

text \<open>
  Claim C10.  The initial state has exactly the body field \<^verbatim>\<open>max_tokens\<close> with the
  value 2000, exactly the header \<^verbatim>\<open>content-type\<close> with the value
  \<^verbatim>\<open>application/json\<close>, the chat mode and the sentinel URL.  When neither the
  document nor a profile that it can reach (those in \<open>P\<close>, which holds the
  default profile and is closed under inclusion) has a \<^verbatim>\<open>!:max_tokens\<close> line, the
  assembled request carries \<^verbatim>\<open>max_tokens\<close> with the value 2000.
\<close>

theorem initial_state:
  "Data NewChatState = [''max_tokens'' \<mapsto> JNum 2000]
   \<and> Headers NewChatState = [''content-type'' \<mapsto> ''application/json'']
   \<and> Type NewChatState = TypeChat
   \<and> Api NewChatState = InvalidUrl \<and> InvalidUrl = ''http://invalid./''
   \<and> (\<not> sets_key ''max_tokens'' doc \<and> set (included doc) \<subseteq> P \<and> default_profile env \<in> P \<and>
        (\<forall>p\<in>P. \<forall>body. profile_body env p = Inr body \<longrightarrow>
             \<not> sets_key ''max_tokens'' body \<and> set (included body) \<subseteq> P) \<and>
        query_request env fuel doc = Some (Inr (api, st)) \<longrightarrow>
        Data st ''max_tokens'' = Some (JNum 2000))"
proof -
  let ?k = "''max_tokens''"
  have A: "Data NewChatState = [?k \<mapsto> JNum 2000]"
    "Headers NewChatState = [''content-type'' \<mapsto> ''application/json'']"
    "Type NewChatState = TypeChat" "Api NewChatState = InvalidUrl"
    "InvalidUrl = ''http://invalid./''"
    by (simp_all add: NewChatState_def InvalidUrl_def)
  have B: "\<not> sets_key ?k doc \<and> set (included doc) \<subseteq> P \<and> default_profile env \<in> P \<and>
        (\<forall>p\<in>P. \<forall>body. profile_body env p = Inr body \<longrightarrow>
             \<not> sets_key ?k body \<and> set (included body) \<subseteq> P) \<and>
        query_request env fuel doc = Some (Inr (api, st)) \<longrightarrow>
        Data st ?k = Some (JNum 2000)"
  proof
    assume a: "\<not> sets_key ?k doc \<and> set (included doc) \<subseteq> P \<and> default_profile env \<in> P \<and>
        (\<forall>p\<in>P. \<forall>body. profile_body env p = Inr body \<longrightarrow>
             \<not> sets_key ?k body \<and> set (included body) \<subseteq> P) \<and>
        query_request env fuel doc = Some (Inr (api, st))"
    then have closed: "\<And>p body. p \<in> P \<Longrightarrow> profile_body env p = Inr body \<Longrightarrow>
        \<not> sets_key ?k body \<and> set (included body) \<subseteq> P"
      by blast
    from a have q: "query_request env fuel doc = Some (Inr (api, st))" by blast
    then obtain t1 where t1: "Load env fuel ''<stdin>'' doc 0 NewChatState = Some (Inr t1)"
      by (auto simp add: query_request_def split: option.splits sum.splits)
    with q obtain t2 where t2: "(if Profile t1 = [] then LoadProfile env fuel (default_profile env) 1 t1
          else Some (Inr t1)) = Some (Inr t2)"
      and as: "assemble env t2 = Inr (api, st)"
      by (auto simp add: query_request_def split: option.splits sum.splits)
    from a have nk: "\<not> sets_key ?k doc" and inc: "set (included doc) \<subseteq> P"
      and dp: "default_profile env \<in> P" by blast+
    have d1: "Data t1 ?k = Data NewChatState ?k"
      by (rule Load_quiet(1) [where P = P and env = env and key = ?k, OF closed nk inc
            t1 [unfolded Load_def]])
    have d2: "Data t2 ?k = Data t1 ?k"
    proof (cases "Profile t1 = []")
      case True
      with t2 have lp: "LoadProfile env fuel (default_profile env) 1 t1 = Some (Inr t2)" by simp
      show ?thesis
        by (rule Load_quiet(2) [where P = P and env = env and key = ?k, OF closed dp lp])
    next
      case False
      with t2 show ?thesis by simp
    qed
    have "Data st ?k = Data t2 ?k"
      using assemble_other_key [OF as, of ?k] by simp
    with d1 d2 show "Data st ?k = Some (JNum 2000)"
      by (simp add: NewChatState_def)
  qed
  from A B show ?thesis
    by (intro conjI) assumption+
qed

theorem initial_state_witness:
  "\<not> sets_key ''max_tokens'' ''!user\<newline>Hello\<newline>''
   \<and> set (included ''!user\<newline>Hello\<newline>'') \<subseteq> {''llama.cpp''}
   \<and> default_profile bare_env \<in> {''llama.cpp''}
   \<and> (\<exists>body. profile_body bare_env ''llama.cpp'' = Inr body \<and>
         \<not> sets_key ''max_tokens'' body \<and> set (included body) \<subseteq> {''llama.cpp''})
   \<and> (\<exists>api st. query_request bare_env 1 ''!user\<newline>Hello\<newline>'' = Some (Inr (api, st))
         \<and> Data st ''max_tokens'' = Some (JNum 2000))"
proof -
  let ?doc = "''!user\<newline>Hello\<newline>''" and ?P = "{''llama.cpp''}"
  have h1: "\<not> sets_key ''max_tokens'' ?doc"
    by (simp add: sets_key_def lines_of.simps command_of_def LF_def)
  have h2: "set (included ?doc) \<subseteq> ?P"
    by (simp add: included_def lines_of.simps command_of_def LF_def)
  have h3: "default_profile bare_env \<in> ?P"
    by (simp add: default_profile_def DefaultProfile_def bare_env_def)
  have h4: "\<forall>p\<in>?P. \<forall>body. profile_body bare_env p = Inr body \<longrightarrow>
         \<not> sets_key ''max_tokens'' body \<and> set (included body) \<subseteq> ?P"
  proof (intro ballI allI impI)
    fix p body
    assume "p \<in> ?P" and "profile_body bare_env p = Inr body"
    then have "body = concat (map (\<lambda>line. line @ [LF]) (the (Profiles ''llama.cpp'')))"
      by (simp add: profile_body_def Profiles_def Profiles_table_def)
    then have b: "lines_of body = the (Profiles ''llama.cpp'')"
      by (simp add: Profiles_def Profiles_table_def lines_of.simps LF_def)
    show "\<not> sets_key ''max_tokens'' body \<and> set (included body) \<subseteq> ?P"
      by (simp add: sets_key_def included_def b Profiles_def Profiles_table_def command_of_def)
  qed
  have "\<exists>r. query_request bare_env 1 ?doc = Some (Inr r)"
    by (simp add: query_request_def run_simps) (simp add: assemble_simps)
  then obtain api st where q: "query_request bare_env 1 ?doc = Some (Inr (api, st))"
    by fastforce
  have "Data st ''max_tokens'' = Some (JNum 2000)"
    using initial_state [where doc = ?doc and P = ?P and env = bare_env and fuel = 1
        and api = api and st = st, THEN conjunct2, THEN conjunct2, THEN conjunct2,
        THEN conjunct2, THEN conjunct2] h1 h2 h3 h4 q
    by blast
  moreover have "\<exists>body. profile_body bare_env ''llama.cpp'' = Inr body"
    by (simp add: profile_body_def Profiles_def Profiles_table_def)
  ultimately show ?thesis
    using h1 h2 h3 h4 q by blast
qed

text \<open>
  Claim C4.  The document \<^verbatim>\<open>!user\<close>, \<^verbatim>\<open>Hello\<close>, \<^verbatim>\<open>!assistant\<close>, \<^verbatim>\<open>Hi there\<close> (each line
  ended by a line feed), in chat mode and with \<^verbatim>\<open>ILLUME_PROFILE\<close> unset, so that the
  default profile is loaded after the document: \<^verbatim>\<open>Load\<close> leaves one finalized
  message and the second segment in progress, the default profile adds no
  content, and the final \<^verbatim>\<open>New("")\<close> of the chat branch stores exactly the two
  messages under \<^verbatim>\<open>messages\<close>.  The first, empty segment gives no system message.
\<close>

theorem chat_example:
  "(\<exists>t. Load env fuel ''<stdin>'' ''!user\<newline>Hello\<newline>!assistant\<newline>Hi there\<newline>'' 0 NewChatState
          = Some (Inr t)
        \<and> Type t = TypeChat \<and> Profile t = []
        \<and> Builder t = \<lparr>Messages = [\<lparr>role = ''user'', content = ''Hello''\<rparr>],
                    Role = ''assistant'', Content = ''Hi there\<newline>''\<rparr>)
   \<and> (\<exists>api st. query_request (env\<lparr>ILLUME_PROFILE := []\<rparr>) (Suc fuel)
                   ''!user\<newline>Hello\<newline>!assistant\<newline>Hi there\<newline>'' = Some (Inr (api, st))
        \<and> Data st ''messages'' =
            Some (JMessages [\<lparr>role = ''user'', content = ''Hello''\<rparr>,
                             \<lparr>role = ''assistant'', content = ''Hi there''\<rparr>])
        \<and> Messages (Builder st) =
            [\<lparr>role = ''user'', content = ''Hello''\<rparr>,
             \<lparr>role = ''assistant'', content = ''Hi there''\<rparr>]
        \<and> api = ''http://localhost:8080/chat/completions'')"
proof
  show "\<exists>t. Load env fuel ''<stdin>'' ''!user\<newline>Hello\<newline>!assistant\<newline>Hi there\<newline>'' 0 NewChatState
          = Some (Inr t)
        \<and> Type t = TypeChat \<and> Profile t = []
        \<and> Builder t = \<lparr>Messages = [\<lparr>role = ''user'', content = ''Hello''\<rparr>],
                    Role = ''assistant'', Content = ''Hi there\<newline>''\<rparr>"
    by (simp add: run_simps)
  show "\<exists>api st. query_request (env\<lparr>ILLUME_PROFILE := []\<rparr>) (Suc fuel)
                   ''!user\<newline>Hello\<newline>!assistant\<newline>Hi there\<newline>'' = Some (Inr (api, st))
        \<and> Data st ''messages'' =
            Some (JMessages [\<lparr>role = ''user'', content = ''Hello''\<rparr>,
                             \<lparr>role = ''assistant'', content = ''Hi there''\<rparr>])
        \<and> Messages (Builder st) =
            [\<lparr>role = ''user'', content = ''Hello''\<rparr>,
             \<lparr>role = ''assistant'', content = ''Hi there''\<rparr>]
        \<and> api = ''http://localhost:8080/chat/completions''"
    by (simp add: query_request_def run_simps; simp add: assemble_simps)
qed

theorem chat_example_witness:
  "\<exists>api st. query_request bare_env 1 ''!user\<newline>Hello\<newline>!assistant\<newline>Hi there\<newline>''
       = Some (Inr (api, st))
     \<and> Data st ''messages'' =
         Some (JMessages [\<lparr>role = ''user'', content = ''Hello''\<rparr>,
                          \<lparr>role = ''assistant'', content = ''Hi there''\<rparr>])"
proof -
  have "bare_env\<lparr>ILLUME_PROFILE := []\<rparr> = bare_env"
    by (simp add: bare_env_def)
  with chat_example [of bare_env 0, THEN conjunct2] show ?thesis
    by auto
qed

text \<open>
  Claim C8.  In the three modes other than chat the assembler reads element 0 of
  the list that \<^verbatim>\<open>New("")\<close> returns, without testing its length.  The list is
  empty exactly when no message was finalized before and the segment in
  progress trims to nothing; then the read is out of range and the run ends in
  a panic, while the chat branch stores the empty list.  With a non-empty list
  there is no such panic.  Documents that hold only directives show it in each
  mode.
\<close>

theorem first_message_unguarded:
  "(Type s \<noteq> TypeChat \<and> fst (New [] (Builder s)) = [] \<longrightarrow>
      switch_type env strict api s = Inl (IndexOutOfRange 0 0))
   \<and> (fst (New [] b) = []) = (Messages b = [] \<and> Trim (Content b) [CR, LF] = [])
   \<and> (fst (New [] (Builder s)) \<noteq> [] \<longrightarrow> switch_type env strict api s \<noteq> Inl (IndexOutOfRange 0 0))
   \<and> (Type s = TypeChat \<longrightarrow>
        switch_type env strict api s =
          Inr (if strict then api else api @ ''chat/completions'',
               s\<lparr>Builder := snd (New [] (Builder s)),
                 Data := (Data s)(''messages'' \<mapsto> JMessages (fst (New [] (Builder s))))\<rparr>))
   \<and> query_request (env\<lparr>ILLUME_PROFILE := []\<rparr>) (Suc fuel) ''!completion\<newline>''
        = Some (Inl (IndexOutOfRange 0 0))
   \<and> query_request (env\<lparr>ILLUME_PROFILE := []\<rparr>) (Suc fuel) ''!infill\<newline>''
        = Some (Inl (IndexOutOfRange 0 0))
   \<and> query_request (env\<lparr>ILLUME_PROFILE := []\<rparr>) (Suc fuel)
        ''!infill <PRE>{prefix}<SUF>{suffix}<MID>\<newline>!infill\<newline>''
        = Some (Inl (IndexOutOfRange 0 0))
   \<and> (\<exists>url st. query_request (env\<lparr>ILLUME_PROFILE := []\<rparr>) (Suc fuel) ''!note nothing to say\<newline>''
          = Some (Inr (url, st)) \<and> Data st ''messages'' = Some (JMessages []))"
proof -
  have A: "Type s \<noteq> TypeChat \<and> fst (New [] (Builder s)) = [] \<longrightarrow>
      switch_type env strict api s = Inl (IndexOutOfRange 0 0)"
    using switch_type_empty [of s env strict api] by blast
  have B: "(fst (New [] b) = []) = (Messages b = [] \<and> Trim (Content b) [CR, LF] = [])"
    by (rule New_empty)
  have C: "fst (New [] (Builder s)) \<noteq> [] \<longrightarrow> switch_type env strict api s \<noteq> Inl (IndexOutOfRange 0 0)"
    using switch_type_nonempty [of s env strict api] by blast
  have D: "Type s = TypeChat \<longrightarrow>
        switch_type env strict api s =
          Inr (if strict then api else api @ ''chat/completions'',
               s\<lparr>Builder := snd (New [] (Builder s)),
                 Data := (Data s)(''messages'' \<mapsto> JMessages (fst (New [] (Builder s))))\<rparr>)"
    using switch_type_chat [of s env strict api] by blast
  have E: "query_request (env\<lparr>ILLUME_PROFILE := []\<rparr>) (Suc fuel) ''!completion\<newline>''
        = Some (Inl (IndexOutOfRange 0 0))"
    by (simp add: query_request_def run_simps; simp add: assemble_simps)
  have F: "query_request (env\<lparr>ILLUME_PROFILE := []\<rparr>) (Suc fuel) ''!infill\<newline>''
        = Some (Inl (IndexOutOfRange 0 0))"
    by (simp add: query_request_def run_simps; simp add: assemble_simps)
  have G: "query_request (env\<lparr>ILLUME_PROFILE := []\<rparr>) (Suc fuel)
        ''!infill <PRE>{prefix}<SUF>{suffix}<MID>\<newline>!infill\<newline>''
        = Some (Inl (IndexOutOfRange 0 0))"
    by (simp add: query_request_def run_simps; simp add: assemble_simps)
  have H: "\<exists>url st. query_request (env\<lparr>ILLUME_PROFILE := []\<rparr>) (Suc fuel) ''!note nothing to say\<newline>''
          = Some (Inr (url, st)) \<and> Data st ''messages'' = Some (JMessages [])"
    by (simp add: query_request_def run_simps; simp add: assemble_simps)
  from A B C D E F G H show ?thesis
    by (intro conjI) assumption+
qed

theorem first_message_unguarded_witness:
  "Type (NewChatState\<lparr>Type := TypeFim\<rparr>) \<noteq> TypeChat
   \<and> fst (New [] (Builder (NewChatState\<lparr>Type := TypeFim\<rparr>))) = []
   \<and> switch_type bare_env False ''http://localhost:8080/'' (NewChatState\<lparr>Type := TypeFim\<rparr>)
       = Inl (IndexOutOfRange 0 0)
   \<and> fst (New [] (Append ''x'' Builder0)) \<noteq> []
   \<and> switch_type bare_env False ''http://localhost:8080/''
        (NewChatState\<lparr>Type := TypeCompletion, Builder := Append ''x'' Builder0\<rparr>)
       \<noteq> Inl (IndexOutOfRange 0 0)
   \<and> Type NewChatState = TypeChat
   \<and> (\<exists>st. switch_type bare_env False ''http://localhost:8080/'' NewChatState
          = Inr (''http://localhost:8080/chat/completions'', st)
        \<and> Data st ''messages'' = Some (JMessages []))
   \<and> query_request bare_env 1 ''!completion\<newline>'' = Some (Inl (IndexOutOfRange 0 0))"
proof -
  let ?f = "NewChatState\<lparr>Type := TypeFim\<rparr>"
  let ?c = "NewChatState\<lparr>Type := TypeCompletion, Builder := Append ''x'' Builder0\<rparr>"
  let ?u = "''http://localhost:8080/''"
  have h1: "Type ?f \<noteq> TypeChat \<and> fst (New [] (Builder ?f)) = []"
    by (simp add: NewChatState_def Builder0_def New_def Trim_def)
  have h2: "fst (New [] (Append ''x'' Builder0)) \<noteq> []" "fst (New [] (Builder ?c)) \<noteq> []"
    by (simp_all add: Append_def Builder0_def New_def Trim_def CR_def LF_def Let_def)
  have h3: "Type NewChatState = TypeChat" "fst (New [] (Builder NewChatState)) = []"
    "Data NewChatState ''messages'' = None"
    by (simp_all add: NewChatState_def Builder0_def New_def Trim_def)
  have e: "bare_env\<lparr>ILLUME_PROFILE := []\<rparr> = bare_env"
    by (simp add: bare_env_def)
  have c1: "switch_type bare_env False ?u ?f = Inl (IndexOutOfRange 0 0)"
    using first_message_unguarded [where s = ?f and env = bare_env and strict = False
        and api = ?u, THEN conjunct1] h1 by blast
  have c2: "switch_type bare_env False ?u ?c \<noteq> Inl (IndexOutOfRange 0 0)"
    using first_message_unguarded [where s = ?c and env = bare_env and strict = False
        and api = ?u, THEN conjunct2, THEN conjunct2, THEN conjunct1] h2 by blast
  have c3: "\<exists>st. switch_type bare_env False ?u NewChatState
          = Inr (''http://localhost:8080/chat/completions'', st)
        \<and> Data st ''messages'' = Some (JMessages [])"
    using first_message_unguarded [where s = NewChatState and env = bare_env and strict = False
        and api = ?u, THEN conjunct2, THEN conjunct2, THEN conjunct2, THEN conjunct1] h3
    by simp
  have c4: "query_request bare_env 1 ''!completion\<newline>'' = Some (Inl (IndexOutOfRange 0 0))"
    using first_message_unguarded [where env = bare_env and fuel = 0,
        THEN conjunct2, THEN conjunct2, THEN conjunct2, THEN conjunct2, THEN conjunct1] e
    by simp
  from h1 h2(1) h3(1) c1 c2 c3 c4 show ?thesis
    by (intro conjI) (simp_all only: simp_thms)
qed

end
